theory Spec2Isabelle
  imports Main
begin

section \<open>Files manager (src/src/files-manager.ts)\<close>

subsection \<open>Data\<close>

text \<open>
  A \<open>TFile\<close> of the host vault is identified by its path. A JavaScript value that may
  be \<open>undefined\<close> or \<open>null\<close> is an \<open>option\<close>, \<open>None\<close> standing for both.
\<close>

type_synonym TFile = string

text \<open>
  What can end a pass early: a \<open>TypeError\<close> (a property read on \<open>undefined\<close> or
  \<open>null\<close>, a \<open>for ... of\<close> over \<open>null\<close>), a value thrown by
  \<open>AnkiConnect.parse\<close> that nothing catches, and the early return of \<open>scanVault\<close>
  when the remote store does not answer.
\<close>

datatype failure = TypeError | Thrown string | CouldNotConnect

text \<open>What the code writes to the console or shows as a notice.\<close>

datatype log_entry =
    UpdateAnkiConnectNotice
  | ConsoleError string
  | FailedToAddNote nat string string

text \<open>
  \<open>AllFile\<close> is declared in \<open>file.ts\<close>, which is not among the sources. The record
  has the fields \<open>files-manager.ts\<close> reads and writes (\<open>file_text\<close> is its field
  \<open>file\<close>, the document text); everything else the scanner
  keeps about a document is the opaque component \<open>scan\<close>.
\<close>

record 'x AllFile =
  path :: string
  file_text :: string
  original_file :: string
  note_ids :: "nat option list"
  card_ids :: "nat list"
  tags :: "string list option"
  scan :: 'x

text \<open>
  The requests \<open>AnkiConnect.multi\<close>, \<open>AnkiConnect.getTags\<close> and
  \<open>AnkiConnect.storeMediaFileByPath\<close> build (\<open>anki.ts\<close> is not among the sources),
  and \<open>action\<close> for the requests an \<open>AllFile\<close> builds for its own notes.
\<close>

datatype 'r Request =
    multi "'r Request list"
  | getTags
  | storeMediaFileByPath string string
  | action 'r

text \<open>The single operations a request asks for, the batches flattened.\<close>

fun operations :: "'r Request \<Rightarrow> 'r Request list" where
  "operations (multi rs) = concat (map operations rs)"
| "operations getTags = [getTags]"
| "operations (storeMediaFileByPath f p) = [storeMediaFileByPath f p]"
| "operations (action a) = [action a]"

text \<open>An element of a response array: \<open>{result, error}\<close>.\<close>

record 'a response =
  result :: "'a option"
  error :: "string option"

record noteInfo =
  cards :: "nat list"

text \<open>
  \<open>Requests1Result\<close>: the answers to the actions 0, 1, 2 and 5 of the first batched
  call (the answers 3 and 4 are typed \<open>any\<close> and never read).
\<close>

record Requests1Result =
  res0 :: "nat response list response list response"
  res1 :: "noteInfo list response list response"
  res2 :: "string list response"
  res5 :: "string response list response"

text \<open>
  The collaborators of the file manager that are not among the sources: the hash of
  \<open>lib/hash\<close>, the methods of \<open>AllFile\<close> (\<open>file.ts\<close>) and the host's link
  resolution. \<open>newScan\<close> is what the constructor of \<open>AllFile\<close> computes from the
  content and the path besides the fields above. \<open>writeIDs\<close> and \<open>removeEmpties\<close>
  give the spans of the document text they touch and what they put there (see
  \<open>apply_edits\<close> below).
\<close>

type_synonym edit = "nat \<times> nat \<times> string"

record ('x, 'r) host =
  getHash :: "string \<Rightarrow> string"
  newScan :: "string \<Rightarrow> string \<Rightarrow> 'x"
  scanFile :: "'x AllFile \<Rightarrow> 'x"
  writeIDs :: "'x AllFile \<Rightarrow> edit list"
  removeEmpties :: "'x AllFile \<Rightarrow> edit list"
  getAddNotes :: "'x AllFile \<Rightarrow> 'r Request"
  getNoteInfo :: "'x AllFile \<Rightarrow> 'r Request"
  getUpdateFields :: "'x AllFile \<Rightarrow> 'r Request"
  getDeleteNotes :: "'x AllFile \<Rightarrow> 'r Request"
  getChangeDecks :: "'x AllFile \<Rightarrow> 'r Request"
  getClearTags :: "'x AllFile \<Rightarrow> 'r Request"
  getAddTags :: "'x AllFile \<Rightarrow> 'r Request"
  detectedMedia :: "'x AllFile \<Rightarrow> string list"
  getFirstLinkpathDest :: "string \<Rightarrow> string \<Rightarrow> TFile option"
  getFullPath :: "string \<Rightarrow> string"
  basename :: "string \<Rightarrow> string"

text \<open>The host vault: its markdown files, and the text \<open>vault.read\<close> gives for each.\<close>

record vault =
  getMarkdownFiles :: "TFile list"
  contents :: "TFile \<Rightarrow> string"

definition modify :: "vault \<Rightarrow> TFile \<Rightarrow> string \<Rightarrow> vault" where
  "modify v f t = v\<lparr>contents := (contents v)(f := t)\<rparr>"

record 'x FileManager =
  files :: "TFile option list"
  ownFiles :: "'x AllFile list"
  file_hashes :: "string \<rightharpoonup> string"
  added_media_set :: "string list"

text \<open>
  A \<open>Set\<close> of strings is the list of its elements in insertion order;
  \<open>set_add\<close> is \<open>Set.add\<close>, \<open>new_Set\<close> is \<open>new Set(array)\<close>.
\<close>

definition set_add :: "string list \<Rightarrow> string \<Rightarrow> string list" where
  "set_add s x = (if x \<in> set s then s else s @ [x])"

definition new_Set :: "string list \<Rightarrow> string list" where
  "new_Set xs = foldl set_add [] xs"

text \<open>\<open>difference(setA, setB)\<close>.\<close>

definition difference :: "string list \<Rightarrow> string list \<Rightarrow> string list" where
  "difference setA setB = filter (\<lambda>x. x \<notin> set setB) setA"

text \<open>\<open>xs[i]\<close> on an array whose elements may be \<open>undefined\<close>.\<close>

definition js_index :: "'a option list \<Rightarrow> nat \<Rightarrow> 'a option" where
  "js_index xs i = (if i < length xs then xs ! i else None)"

definition FileManager_new ::
  "TFile list \<Rightarrow> (string \<rightharpoonup> string) \<Rightarrow> string list \<Rightarrow> 'x FileManager" where
  "FileManager_new fs hashes added_media =
     \<lparr>files = map Some fs, ownFiles = [], file_hashes = hashes,
      added_media_set = new_Set added_media\<rparr>"

text \<open>
  Modelled from the spec: the constructor of \<open>AllFile\<close> (\<open>file.ts\<close> is not among
  the sources). A document wraps its path and its raw text; the text it is compared
  with before write-back is the text it was read with.
\<close>

definition new_AllFile :: "('x, 'r) host \<Rightarrow> string \<Rightarrow> string \<Rightarrow> 'x AllFile" where
  "new_AllFile h content p =
     \<lparr>path = p, file_text = content, original_file = content, note_ids = [], card_ids = [],
      tags = None, scan = newScan h content p\<rparr>"

subsection \<open>genAllFiles, initialiseFiles, getHashes\<close>

text \<open>
  \<open>genAllFiles\<close> pushes one \<open>AllFile\<close> for each file of the manager; a file that is
  \<open>undefined\<close> has no \<open>path\<close> to read.
\<close>

fun genAllFiles_loop ::
  "('x, 'r) host \<Rightarrow> vault \<Rightarrow> TFile option list \<Rightarrow> 'x AllFile list \<Rightarrow> failure + 'x AllFile list" where
  "genAllFiles_loop h v [] own = Inr own"
| "genAllFiles_loop h v (None # fs) own = Inl TypeError"
| "genAllFiles_loop h v (Some f # fs) own =
     genAllFiles_loop h v fs (own @ [new_AllFile h (contents v f) f])"

definition genAllFiles ::
  "('x, 'r) host \<Rightarrow> vault \<Rightarrow> 'x FileManager \<Rightarrow> failure + 'x FileManager" where
  "genAllFiles h v m =
     (case genAllFiles_loop h v (files m) (ownFiles m) of
        Inl e \<Rightarrow> Inl e
      | Inr own \<Rightarrow> Inr (m\<lparr>ownFiles := own\<rparr>))"

text \<open>The condition of lines 185 to 191: the document is changed or new.\<close>

definition changed_or_new :: "('x, 'r) host \<Rightarrow> (string \<rightharpoonup> string) \<Rightarrow> 'x AllFile \<Rightarrow> bool" where
  "changed_or_new h hashes f =
     (\<not> (hashes (path f) \<noteq> None \<and> Some (getHash h (file_text f)) = hashes (path f)))"

text \<open>
  The loop of lines 182 to 198 over the indices of \<open>ownFiles\<close>: the document at
  index \<open>i\<close>, when changed or new, is scanned and pushed with \<open>this.files[i]\<close>.
\<close>

fun initialiseFiles_loop ::
  "('x, 'r) host \<Rightarrow> (string \<rightharpoonup> string) \<Rightarrow> TFile option list \<Rightarrow> nat \<Rightarrow> 'x AllFile list \<Rightarrow>
   'x AllFile list \<Rightarrow> TFile option list \<Rightarrow> 'x AllFile list \<times> TFile option list" where
  "initialiseFiles_loop h hashes fs i [] files_changed obfiles_changed =
     (files_changed, obfiles_changed)"
| "initialiseFiles_loop h hashes fs i (f # rest) files_changed obfiles_changed =
     (if changed_or_new h hashes f
      then initialiseFiles_loop h hashes fs (Suc i) rest
             (files_changed @ [f\<lparr>scan := scanFile h f\<rparr>]) (obfiles_changed @ [js_index fs i])
      else initialiseFiles_loop h hashes fs (Suc i) rest files_changed obfiles_changed)"

definition initialiseFiles ::
  "('x, 'r) host \<Rightarrow> vault \<Rightarrow> 'x FileManager \<Rightarrow> failure + 'x FileManager" where
  "initialiseFiles h v m =
     (case genAllFiles h v m of
        Inl e \<Rightarrow> Inl e
      | Inr m1 \<Rightarrow>
          (case initialiseFiles_loop h (file_hashes m1) (files m1) 0 (ownFiles m1) [] [] of
             (files_changed, obfiles_changed) \<Rightarrow>
               Inr (m1\<lparr>ownFiles := files_changed, files := obfiles_changed\<rparr>)))"

definition getHashes :: "('x, 'r) host \<Rightarrow> 'x FileManager \<Rightarrow> (string \<rightharpoonup> string)" where
  "getHashes h m =
     foldl (\<lambda>res f. res(path f \<mapsto> getHash h (file_text f))) Map.empty (ownFiles m)"

subsection \<open>requests_1: the first batched call\<close>

text \<open>
  The media loop of lines 220 to 241. \<open>mediaLinks\<close> is computed once for each
  document; a link the host resolves is added to the set and requested.
\<close>

fun media_links_loop ::
  "('x, 'r) host \<Rightarrow> string \<Rightarrow> string list \<Rightarrow> string list \<Rightarrow> 'r Request list \<Rightarrow>
   string list \<times> 'r Request list" where
  "media_links_loop h p [] added temp = (added, temp)"
| "media_links_loop h p (mediaLink # rest) added temp =
     (case getFirstLinkpathDest h mediaLink p of
        None \<Rightarrow> media_links_loop h p rest added temp
      | Some dataFile \<Rightarrow>
          media_links_loop h p rest (set_add added mediaLink)
            (temp @ [storeMediaFileByPath (basename h mediaLink) (getFullPath h dataFile)]))"

fun media_loop ::
  "('x, 'r) host \<Rightarrow> 'x AllFile list \<Rightarrow> string list \<Rightarrow> 'r Request list \<Rightarrow>
   string list \<times> 'r Request list" where
  "media_loop h [] added temp = (added, temp)"
| "media_loop h (f # rest) added temp =
     (case media_links_loop h (path f) (difference (detectedMedia h f) added) added temp of
        (added', temp') \<Rightarrow> media_loop h rest added' temp')"

text \<open>
  The actions \<open>requests_1\<close> sends in its one \<open>multi\<close> call, and the media set it
  leaves.
\<close>

definition requests_1_actions ::
  "('x, 'r) host \<Rightarrow> 'x FileManager \<Rightarrow> 'r Request list \<times> 'x FileManager" where
  "requests_1_actions h m =
     (case media_loop h (ownFiles m) (added_media_set m) [] of
        (added, temp) \<Rightarrow>
          ([multi (map (getAddNotes h) (ownFiles m)),
            multi (map (getNoteInfo h) (ownFiles m)),
            getTags,
            multi (map (getUpdateFields h) (ownFiles m)),
            multi (map (getDeleteNotes h) (ownFiles m)),
            multi temp],
           m\<lparr>added_media_set := added\<rparr>))"

text \<open>The requests of the second batched call, \<open>requests_2\<close>.\<close>

definition requests_2_actions :: "('x, 'r) host \<Rightarrow> 'x FileManager \<Rightarrow> 'r Request list" where
  "requests_2_actions h m =
     [multi (map (getChangeDecks h) (ownFiles m)),
      multi (map (getClearTags h) (ownFiles m)),
      multi (map (getAddTags h) (ownFiles m))]"

subsection \<open>parse_requests_1: reconciling the response\<close>

text \<open>
  Modelled from the spec: \<open>AnkiConnect.parse\<close> (\<open>anki.ts\<close> is not among the
  sources). An element of a response is \<open>{result, error: null}\<close> or
  \<open>{result: null, error}\<close>; parsing one that carries an error throws the error,
  parsing any other gives its result.
\<close>

definition AnkiConnect_parse :: "'a response \<Rightarrow> string + 'a option" where
  "AnkiConnect_parse r = (case error r of Some e \<Rightarrow> Inl e | None \<Rightarrow> Inr (result r))"

text \<open>A \<open>for ... in\<close> over an array that may be \<open>null\<close> runs over no index then.\<close>

definition for_in :: "'a list option \<Rightarrow> 'a list" where
  "for_in xs = (case xs of None \<Rightarrow> [] | Some ys \<Rightarrow> ys)"

text \<open>
  The inner loop of lines 286 to 302, over the create responses of one document:
  a response that parses pushes its identifier; one that throws is logged and pushes
  \<open>response.result\<close>.
\<close>

fun note_ids_of_file ::
  "string \<Rightarrow> nat \<Rightarrow> nat response list \<Rightarrow> nat option list \<Rightarrow> log_entry list \<Rightarrow>
   nat option list \<times> log_entry list" where
  "note_ids_of_file p i [] ids lg = (ids, lg)"
| "note_ids_of_file p i (r # rest) ids lg =
     (case AnkiConnect_parse r of
        Inr v \<Rightarrow> note_ids_of_file p (Suc i) rest (ids @ [v]) lg
      | Inl e \<Rightarrow> note_ids_of_file p (Suc i) rest (ids @ [result r]) (lg @ [FailedToAddNote i p e]))"

text \<open>
  The loop of lines 275 to 303 over the documents' create responses. The document is
  \<open>this.ownFiles[i]\<close>; assigning \<open>note_ids\<close> to \<open>undefined\<close> is a \<open>TypeError\<close>.
\<close>

fun note_ids_loop ::
  "nat \<Rightarrow> nat response list response list \<Rightarrow> 'x AllFile list \<Rightarrow> log_entry list \<Rightarrow>
   failure + 'x AllFile list \<times> log_entry list" where
  "note_ids_loop i [] own lg = Inr (own, lg)"
| "note_ids_loop i (fr # rest) own lg =
     (case (case AnkiConnect_parse fr of
              Inr v \<Rightarrow> (v, lg)
            | Inl e \<Rightarrow> (result fr, lg @ [ConsoleError e])) of
        (file_response, lg1) \<Rightarrow>
          if i < length own
          then (case note_ids_of_file (path (own ! i)) 0 (for_in file_response) [] lg1 of
                  (ids, lg2) \<Rightarrow>
                    note_ids_loop (Suc i) rest (own[i := (own ! i)\<lparr>note_ids := ids\<rparr>]) lg2)
          else Inl TypeError)"

text \<open>
  The loop of lines 304 to 313 over the documents' note infos. Nothing catches what
  \<open>AnkiConnect.parse\<close> throws here, and \<open>for ... of\<close> over \<open>null\<close> is a
  \<open>TypeError\<close>.
\<close>

fun card_ids_loop ::
  "nat \<Rightarrow> noteInfo list response list \<Rightarrow> 'x AllFile list \<Rightarrow> failure + 'x AllFile list" where
  "card_ids_loop i [] own = Inr own"
| "card_ids_loop i (fr # rest) own =
     (case AnkiConnect_parse fr of
        Inl e \<Rightarrow> Inl (Thrown e)
      | Inr None \<Rightarrow> Inl TypeError
      | Inr (Some file_response) \<Rightarrow>
          if i < length own
          then card_ids_loop (Suc i) rest
                 (own[i := (own ! i)\<lparr>card_ids := concat (map cards file_response)\<rparr>])
          else Inl TypeError)"

text \<open>
  Modelled from the spec: how \<open>AllFile.writeIDs\<close> and \<open>AllFile.removeEmpties\<close>
  rewrite the document text (\<open>file.ts\<close> is not among the sources). Rewriting touches
  spans of the text that do not overlap, in document order: a record's identifier is
  serialized into its span's text position (an insertion, a span of length 0), and a
  construct whose content is empty is stripped (its span replaced by nothing). An edit
  \<open>(start, len, repl)\<close> puts \<open>repl\<close> in the place of the \<open>len\<close> characters from
  position \<open>start\<close> of the document; \<open>at\<close> is the position of the text still to
  be copied.
\<close>

fun apply_edits :: "nat \<Rightarrow> string \<Rightarrow> edit list \<Rightarrow> string" where
  "apply_edits at t [] = t"
| "apply_edits at t ((start, len, repl) # es) =
     take (start - at) t @ repl @ apply_edits (start + len) (drop (start + len - at) t) es"

text \<open>
  The spans are in document order, inside the document (which ends at position
  \<open>n\<close>), and do not overlap.
\<close>

fun spans_ok :: "nat \<Rightarrow> nat \<Rightarrow> edit list \<Rightarrow> bool" where
  "spans_ok at n [] = True"
| "spans_ok at n ((start, len, repl) # es) =
     (at \<le> start \<and> start + len \<le> n \<and> spans_ok (start + len) n es)"

text \<open>
  The pieces of the text outside the touched spans, and the text of the touched
  spans, in document order.
\<close>

fun outside :: "nat \<Rightarrow> string \<Rightarrow> edit list \<Rightarrow> string list" where
  "outside at t [] = [t]"
| "outside at t ((start, len, repl) # es) =
     take (start - at) t # outside (start + len) (drop (start + len - at) t) es"

fun touched :: "nat \<Rightarrow> string \<Rightarrow> edit list \<Rightarrow> string list" where
  "touched at t [] = []"
| "touched at t ((start, len, repl) # es) =
     take len (drop (start - at) t) # touched (start + len) (drop (start + len - at) t) es"

text \<open>A text from its pieces outside the spans and what stands in the spans.\<close>

fun interleave :: "string list \<Rightarrow> string list \<Rightarrow> string" where
  "interleave [] ss = []"
| "interleave (piece # pieces) [] = piece"
| "interleave (piece # pieces) (s # ss) = piece @ s @ interleave pieces ss"

text \<open>
  The text \<open>t\<close> and the rewritten text \<open>t'\<close> are made of the same pieces outside
  the spans of \<open>es\<close>, in the same order: \<open>t\<close> with the spans' own text between
  them, \<open>t'\<close> with what the edits put there.
\<close>

definition preserved_outside :: "string \<Rightarrow> edit list \<Rightarrow> string \<Rightarrow> bool" where
  "preserved_outside t es t' =
     (t = interleave (outside 0 t es) (touched 0 t es) \<and>
      t' = interleave (outside 0 t es) (map (\<lambda>(start, len, repl). repl) es))"

text \<open>
  The body of the loop of lines 314 to 324 up to the comparison: the tag list is
  assigned, then \<open>writeIDs\<close> and \<open>removeEmpties\<close> rewrite the text.
\<close>

definition AllFile_writeIDs :: "('x, 'r) host \<Rightarrow> 'x AllFile \<Rightarrow> 'x AllFile" where
  "AllFile_writeIDs h f = f\<lparr>file_text := apply_edits 0 (file_text f) (writeIDs h f)\<rparr>"

definition AllFile_removeEmpties :: "('x, 'r) host \<Rightarrow> 'x AllFile \<Rightarrow> 'x AllFile" where
  "AllFile_removeEmpties h f =
     f\<lparr>file_text := apply_edits 0 (file_text f) (removeEmpties h f)\<rparr>"

definition rewritten :: "('x, 'r) host \<Rightarrow> string list option \<Rightarrow> 'x AllFile \<Rightarrow> 'x AllFile" where
  "rewritten h tag_list ownFile =
     AllFile_removeEmpties h (AllFile_writeIDs h (ownFile\<lparr>tags := tag_list\<rparr>))"

text \<open>
  The loop of lines 314 to 324: a document whose text is not its original text is
  written to the vault, as \<open>this.files[i]\<close>. The calls of \<open>vault.modify\<close> are
  collected in the order they are made.
\<close>

fun write_back_loop ::
  "('x, 'r) host \<Rightarrow> string list option \<Rightarrow> TFile option list \<Rightarrow> nat \<Rightarrow> 'x AllFile list \<Rightarrow>
   'x AllFile list \<Rightarrow> (TFile \<times> string) list \<Rightarrow>
   failure + 'x AllFile list \<times> (TFile \<times> string) list" where
  "write_back_loop h tag_list fs i [] processed writes = Inr (processed, writes)"
| "write_back_loop h tag_list fs i (ownFile # rest) processed writes =
     (let f = rewritten h tag_list ownFile in
      if file_text f \<noteq> original_file f
      then (case js_index fs i of
              None \<Rightarrow> Inl TypeError
            | Some obFile \<Rightarrow>
                write_back_loop h tag_list fs (Suc i) rest (processed @ [f])
                  (writes @ [(obFile, file_text f)]))
      else write_back_loop h tag_list fs (Suc i) rest (processed @ [f]) writes)"

text \<open>The vault after the calls of \<open>vault.modify\<close>.\<close>

definition apply_writes :: "vault \<Rightarrow> (TFile \<times> string) list \<Rightarrow> vault" where
  "apply_writes v ws = foldl (\<lambda>v (f, t). modify v f t) v ws"

text \<open>
  \<open>parse_requests_1\<close>: the notice of lines 260 to 265, the three parses of lines 266
  to 274, the three loops, and the second batched call, whose answer is not read.
\<close>

definition parse_requests_1 ::
  "('x, 'r) host \<Rightarrow> Requests1Result \<Rightarrow> 'x FileManager \<Rightarrow> vault \<Rightarrow>
   failure + 'x FileManager \<times> vault \<times> (TFile \<times> string) list \<times> 'r Request list \<times> log_entry list" where
  "parse_requests_1 h response m v =
     (case result (res5 response) of
        None \<Rightarrow> Inl TypeError
      | Some media \<Rightarrow>
          (let lg0 = (if length media \<ge> 1 \<and> error (hd media) \<noteq> None
                      then [UpdateAnkiConnectNotice] else []);
               lg1 = (case AnkiConnect_parse (res0 response) of
                        Inr v \<Rightarrow> lg0
                      | Inl e \<Rightarrow> lg0 @ [ConsoleError e]);
               note_ids_array_by_file = result (res0 response)
           in case AnkiConnect_parse (res1 response) of
                Inl e \<Rightarrow> Inl (Thrown e)
              | Inr note_info_array_by_file \<Rightarrow>
                  (case AnkiConnect_parse (res2 response) of
                     Inl e \<Rightarrow> Inl (Thrown e)
                   | Inr tag_list \<Rightarrow>
                       (case note_ids_loop 0 (for_in note_ids_array_by_file) (ownFiles m) lg1 of
                          Inl e \<Rightarrow> Inl e
                        | Inr (own1, lg2) \<Rightarrow>
                            (case card_ids_loop 0 (for_in note_info_array_by_file) own1 of
                               Inl e \<Rightarrow> Inl e
                             | Inr own2 \<Rightarrow>
                                 (case write_back_loop h tag_list (files m) 0 own2 [] [] of
                                    Inl e \<Rightarrow> Inl e
                                  | Inr (own3, writes) \<Rightarrow>
                                      (let m3 = m\<lparr>ownFiles := own3\<rparr>
                                       in Inr (m3, apply_writes v writes, writes,
                                               requests_2_actions h m3, lg2))))))))"

text \<open>
  The remote store: whether it answers at all, and its answer to the actions of the
  first batched call.
\<close>

record 'r remote =
  connected :: bool
  invoke_multi :: "'r Request list \<Rightarrow> Requests1Result"

definition requests_1 ::
  "('x, 'r) host \<Rightarrow> 'r remote \<Rightarrow> 'x FileManager \<Rightarrow> vault \<Rightarrow>
   failure + 'x FileManager \<times> vault \<times> (TFile \<times> string) list \<times> 'r Request list list \<times> log_entry list" where
  "requests_1 h rem m v =
     (case requests_1_actions h m of
        (actions, m1) \<Rightarrow>
          (case parse_requests_1 h (invoke_multi rem actions) m1 v of
             Inl e \<Rightarrow> Inl e
           | Inr (m2, v2, writes, requests, lg) \<Rightarrow> Inr (m2, v2, writes, [actions, requests], lg)))"

subsection \<open>scanVault: one pass (src/unnamed/part_000)\<close>

text \<open>The persisted sync state of the plugin.\<close>

record plugin =
  plugin_file_hashes :: "string \<rightharpoonup> string"
  added_media :: "string list"

text \<open>
  One pass. The fingerprints of the documents of the manager are recorded only when
  \<open>requests_1\<close> has returned.
\<close>

definition scanVault ::
  "('x, 'r) host \<Rightarrow> 'r remote \<Rightarrow> plugin \<Rightarrow> vault \<Rightarrow>
   failure + plugin \<times> vault \<times> 'r Request list list" where
  "scanVault h rem pl v =
     (if \<not> connected rem then Inl CouldNotConnect
      else
        (case initialiseFiles h v
                (FileManager_new (getMarkdownFiles v) (plugin_file_hashes pl) (added_media pl)) of
           Inl e \<Rightarrow> Inl e
         | Inr (manager :: 'x FileManager) \<Rightarrow>
             (case requests_1 h rem manager v of
                Inl e \<Rightarrow> Inl e
              | Inr (manager', v', writes, sent, lg) \<Rightarrow>
                  Inr (\<lparr>plugin_file_hashes = plugin_file_hashes pl ++ getHashes h manager',
                        added_media = added_media_set manager'\<rparr>, v', sent))))"

subsection \<open>Change detection as the specification words it\<close>

text \<open>
  The specification's \<open>shouldScan(document, syncState)\<close>, in its own words: true iff
  \<open>syncState[document.path]\<close> is absent or the stored fingerprint is not the hash of
  the document's raw text. It is compared with \<open>changed_or_new\<close>, the condition of the
  source.
\<close>

definition shouldScan ::
  "('x, 'r) host \<Rightarrow> (string \<rightharpoonup> string) \<Rightarrow> string \<Rightarrow> string \<Rightarrow> bool" where
  "shouldScan h syncState p rawText =
     (syncState p = None \<or> syncState p \<noteq> Some (getHash h rawText))"

subsection \<open>Example collaborators\<close>

text \<open>
  A host for the examples: the hash is the text itself, the scanner keeps nothing,
  rewriting leaves the text as it is, and a document asks for no request of its own.
\<close>

definition example_host :: "(unit, unit) host" where
  "example_host =
     \<lparr>getHash = (\<lambda>s. s), newScan = (\<lambda>c p. ()), scanFile = (\<lambda>f. ()),
      writeIDs = (\<lambda>f. []), removeEmpties = (\<lambda>f. []),
      getAddNotes = (\<lambda>f. multi []), getNoteInfo = (\<lambda>f. multi []),
      getUpdateFields = (\<lambda>f. multi []), getDeleteNotes = (\<lambda>f. multi []),
      getChangeDecks = (\<lambda>f. multi []), getClearTags = (\<lambda>f. multi []),
      getAddTags = (\<lambda>f. multi []), detectedMedia = (\<lambda>f. []),
      getFirstLinkpathDest = (\<lambda>l p. None), getFullPath = (\<lambda>p. p), basename = (\<lambda>p. p)\<rparr>"

definition example_vault :: vault where
  "example_vault =
     \<lparr>getMarkdownFiles = [''a.md'', ''b.md''],
      contents = (\<lambda>p. if p = ''b.md'' then ''R'' else ''Q'')\<rparr>"

text \<open>
  A host whose \<open>writeIDs\<close> inserts \<open>ID\<close> at position 1 of a document with one
  record that has an identifier; a manager for the two documents of the vault, both
  to be scanned; and a response that gives identifier 1 to the one record of the
  first document.
\<close>

definition example_writer :: "(unit, unit) host" where
  "example_writer =
     example_host\<lparr>writeIDs :=
       (\<lambda>f. case note_ids f of [Some n] \<Rightarrow> [(1, 0, ''ID'')] | _ \<Rightarrow> [])\<rparr>"

definition example_manager :: "unit FileManager" where
  "example_manager =
     \<lparr>files = [Some ''a.md'', Some ''b.md''],
      ownFiles = [new_AllFile example_writer ''Q'' ''a.md'',
                  new_AllFile example_writer ''R'' ''b.md''],
      file_hashes = Map.empty, added_media_set = []\<rparr>"

definition example_response :: Requests1Result where
  "example_response =
     \<lparr>res0 = \<lparr>result = Some [\<lparr>result = Some [\<lparr>result = Some 1, error = None\<rparr>],
                               error = None\<rparr>,
                              \<lparr>result = Some [], error = None\<rparr>],
              error = None\<rparr>,
      res1 = \<lparr>result = Some [], error = None\<rparr>,
      res2 = \<lparr>result = Some [], error = None\<rparr>,
      res5 = \<lparr>result = Some [], error = None\<rparr>\<rparr>"

subsection \<open>The response contract\<close>

text \<open>
  Modelled from the spec: the contract of the remote store's transport, under which
  each element of a response is either \<open>{result, error: null}\<close> or
  \<open>{result: null, error}\<close>.
\<close>

definition well_formed :: "'a response \<Rightarrow> bool" where
  "well_formed r = (error r = None \<or> result r = None)"

text \<open>
  A remote store that answers every first batched call with \<open>example_response\<close>, and
  a plugin that has recorded nothing yet.
\<close>

definition example_remote :: "unit remote" where
  "example_remote = \<lparr>connected = True, invoke_multi = (\<lambda>actions. example_response)\<rparr>"

definition example_plugin :: plugin where
  "example_plugin = \<lparr>plugin_file_hashes = Map.empty, added_media = []\<rparr>"

text \<open>
  Modelled from the spec: responses are positional, one element for each request, so
  the answer to a batched call that holds batches of no request holds no result for
  any document. Such an answer to the first batched call carries no create response
  and no note info, and the reads of the note infos and of the tags did not fail.
\<close>

definition answers_empty_batches :: "Requests1Result \<Rightarrow> bool" where
  "answers_empty_batches r =
     (for_in (result (res0 r)) = [] \<and>
      error (res1 r) = None \<and> for_in (result (res1 r)) = [] \<and>
      error (res2 r) = None \<and> result (res5 r) = Some [])"

text \<open>A remote store with one tag that is asked for nothing.\<close>

definition example_idle_remote :: "unit remote" where
  "example_idle_remote =
     \<lparr>connected = True,
      invoke_multi = (\<lambda>actions.
        \<lparr>res0 = \<lparr>result = Some [], error = None\<rparr>,
         res1 = \<lparr>result = Some [], error = None\<rparr>,
         res2 = \<lparr>result = Some [''tag''], error = None\<rparr>,
         res5 = \<lparr>result = Some [], error = None\<rparr>\<rparr>)\<rparr>"

section \<open>Note parsers (src/unnamed/part_001)\<close>

subsection \<open>Strings\<close>

text \<open>
  A string is a list of characters, each one of the code points 0 to 255; a text
  with a code point beyond them is outside the model. \<open>trim\<close>, \<open>split\<close> with a
  separator of one character (\<open>split_on\<close>), \<open>startsWith\<close> and \<open>includes\<close>
  (\<open>includes_str\<close>) are the methods of JavaScript strings. \<open>trim\<close> strips white
  space and line terminators: among these code points the tab, the line feed, the
  vertical tab, the form feed, the carriage return, the space and the no-break space
  \<open>U+00A0\<close>. The line terminators among them, which the dot of a regular
  expression leaves out, are the line feed and the carriage return.
\<close>

definition newline :: char where
  "newline = CHR 0x0A"

definition is_ws :: "char \<Rightarrow> bool" where
  "is_ws c = (c \<in> set [CHR '' '', CHR 0x09, CHR 0x0A, CHR 0x0B, CHR 0x0C, CHR 0x0D, CHR 0xA0])"

definition is_line_terminator :: "char \<Rightarrow> bool" where
  "is_line_terminator c = (c = CHR 0x0A \<or> c = CHR 0x0D)"

definition trim :: "string \<Rightarrow> string" where
  "trim s = rev (dropWhile is_ws (rev (dropWhile is_ws s)))"

fun split_on :: "char \<Rightarrow> string \<Rightarrow> string list" where
  "split_on sep [] = [[]]"
| "split_on sep (c # cs) =
     (if c = sep then [] # split_on sep cs
      else (case split_on sep cs of [] \<Rightarrow> [[c]] | w # ws \<Rightarrow> (c # w) # ws))"

definition startsWith :: "string \<Rightarrow> string \<Rightarrow> bool" where
  "startsWith s p = (take (length p) s = p)"

fun includes_str :: "string \<Rightarrow> string \<Rightarrow> bool" where
  "includes_str [] p = (p = [])"
| "includes_str (c # cs) p = (startsWith (c # cs) p \<or> includes_str cs p)"

definition is_digit :: "char \<Rightarrow> bool" where
  "is_digit c = (c \<in> set ''0123456789'')"

text \<open>The value of a digit is its place among the ten digits.\<close>

definition digit_value :: "char \<Rightarrow> nat" where
  "digit_value c = length (takeWhile (\<lambda>d. d \<noteq> c) ''0123456789'')"

text \<open>
  A JavaScript number that stands for an identifier: a natural number that a double
  holds, \<open>NaN\<close> or \<open>Infinity\<close>. \<open>decimal\<close> is the natural number a run of digits
  spells.
\<close>

datatype number = Id nat | NaN | Infinity

definition decimal :: "string \<Rightarrow> nat" where
  "decimal ds = foldl (\<lambda>n c. 10 * n + digit_value c) 0 ds"

text \<open>
  The double nearest to a natural number. A double holds 53 significant bits:
  \<open>excess n\<close> is the number of bits \<open>n\<close> has beyond them, and \<open>n\<close> is rounded to a
  multiple of \<open>2 ^ excess n\<close>, to the nearest one and to the even one of two that are
  equally near. Every number below \<open>2 ^ 53\<close> is held exactly; a number that rounds
  to \<open>2 ^ 1024\<close> or more is \<open>Infinity\<close>.
\<close>

fun excess :: "nat \<Rightarrow> nat" where
  "excess n = (if n < 2 ^ 53 then 0 else Suc (excess (n div 2)))"

definition to_double :: "nat \<Rightarrow> number" where
  "to_double n =
     (let e = excess n;
          q = n div 2 ^ e;
          r = n mod 2 ^ e;
          m = (if 2 ^ e < 2 * r \<or> (2 * r = 2 ^ e \<and> odd q) then q + 1 else q) * 2 ^ e
      in if 2 ^ 1024 \<le> m then Infinity else Id m)"

text \<open>
  \<open>parseInt\<close> skips leading white space and reads the decimal digits that follow, to
  the double nearest to the number they spell; with none, and on \<open>undefined\<close>, it
  gives \<open>NaN\<close>. A sign or a \<open>0x\<close> prefix is not modelled: the source applies
  \<open>parseInt\<close> to the digits its regular expressions capture. (The standard lets an
  implementation read the digits after the twentieth as zeros; the model reads them
  all.)
\<close>

definition parseInt :: "string option \<Rightarrow> number" where
  "parseInt v =
     (case v of
        None \<Rightarrow> NaN
      | Some s \<Rightarrow>
          (let ds = takeWhile is_digit (dropWhile is_ws s)
           in if ds = [] then NaN else to_double (decimal ds)))"

text \<open>A value that may be \<open>undefined\<close>, used as a string or as a property key.\<close>

definition js_string :: "string option \<Rightarrow> string" where
  "js_string v = (case v of None \<Rightarrow> ''undefined'' | Some s \<Rightarrow> s)"

subsection \<open>Objects with string keys\<close>

text \<open>
  A plain object is the list of its own properties in the order JavaScript lists
  them (\<open>Object.keys\<close>, \<open>Object.values\<close>, \<open>for ... in\<close>), each key once: the keys
  that are array indices first, in ascending order, then the other keys in the order
  of their creation. An array index is the canonical decimal numeral of a number up to
  \<open>2^32 - 2\<close>; of two of them the shorter is the smaller, and of two of one length
  the one that comes first digit by digit.
\<close>

fun digits_less :: "string \<Rightarrow> string \<Rightarrow> bool" where
  "digits_less (c # cs) (d # ds) =
     (digit_value c < digit_value d \<or> (c = d \<and> digits_less cs ds))"
| "digits_less cs ds = False"

definition index_less :: "string \<Rightarrow> string \<Rightarrow> bool" where
  "index_less k k' =
     (length k < length k' \<or> (length k = length k' \<and> digits_less k k'))"

definition is_array_index :: "string \<Rightarrow> bool" where
  "is_array_index k =
     (k \<noteq> [] \<and> list_all is_digit k \<and> (hd k \<noteq> CHR ''0'' \<or> k = ''0'') \<and>
      \<not> index_less ''4294967294'' k)"

type_synonym 'v obj = "(string \<times> 'v) list"

definition obj_keys :: "'v obj \<Rightarrow> string list" where
  "obj_keys ob = map fst ob"

text \<open>\<open>obj_get\<close> is the own property of a key, if there is one.\<close>

definition obj_get :: "'v obj \<Rightarrow> string \<Rightarrow> 'v option" where
  "obj_get ob k = map_of ob k"

text \<open>The place of a new property among the properties there are.\<close>

fun insert_key :: "string \<Rightarrow> 'v \<Rightarrow> 'v obj \<Rightarrow> 'v obj" where
  "insert_key k v [] = [(k, v)]"
| "insert_key k v ((k', v') # rest) =
     (if is_array_index k \<and> (\<not> is_array_index k' \<or> index_less k k')
      then (k, v) # (k', v') # rest
      else (k', v') # insert_key k v rest)"

text \<open>
  \<open>obj_set\<close> is the assignment \<open>o[k] = v\<close> of a string to a property of a plain
  object: the value of an own property is replaced, a new property is created. The
  key \<open>__proto__\<close> is the exception: the assignment goes to the setter that
  \<open>Object.prototype\<close> has for it, which does nothing with a value that is not an
  object, so no property is created.
\<close>

definition obj_set :: "'v obj \<Rightarrow> string \<Rightarrow> 'v \<Rightarrow> 'v obj" where
  "obj_set ob k v =
     (if k = ''__proto__'' then ob
      else if k \<in> set (obj_keys ob)
      then map (\<lambda>(k', v'). if k' = k then (k', v) else (k', v')) ob
      else insert_key k v ob)"

text \<open>
  The properties a plain object inherits from \<open>Object.prototype\<close>, each with the
  string its value is converted to: the text of a built-in function (as V8, the
  engine of the host, prints it) and, for \<open>__proto__\<close>, that of the prototype.
\<close>

definition Object_prototype :: "string obj" where
  "Object_prototype =
     (''constructor'', ''function Object() { [native code] }'') #
     (''__proto__'', ''[object Object]'') #
     map (\<lambda>name. (name, ''function '' @ name @ ''() { [native code] }''))
       [''__defineGetter__'', ''__defineSetter__'', ''hasOwnProperty'', ''__lookupGetter__'',
        ''__lookupSetter__'', ''isPrototypeOf'', ''propertyIsEnumerable'', ''toString'',
        ''valueOf'', ''toLocaleString'']"

text \<open>
  \<open>obj_read\<close> is the read \<open>o[k]\<close> as a string: the own property, else the inherited
  one, else \<open>undefined\<close>. \<open>obj_append\<close> is the assignment \<open>o[k] += s\<close>.
  \<open>dict_read\<close> is the same read of a dictionary of strings whose own properties are
  those of a map, with \<open>undefined\<close> as \<open>None\<close>.
\<close>

definition obj_read :: "string obj \<Rightarrow> string \<Rightarrow> string" where
  "obj_read ob k =
     (case obj_get ob k of Some v \<Rightarrow> v | None \<Rightarrow> js_string (obj_get Object_prototype k))"

definition obj_append :: "string obj \<Rightarrow> string \<Rightarrow> string \<Rightarrow> string obj" where
  "obj_append ob k s = obj_set ob k (obj_read ob k @ s)"

definition dict_read :: "(string \<rightharpoonup> string) \<Rightarrow> string \<Rightarrow> string option" where
  "dict_read d k = (case d k of Some v \<Rightarrow> Some v | None \<Rightarrow> obj_get Object_prototype k)"

subsection \<open>The regular expressions of the parsers\<close>

text \<open>
  \<open>ID_REGEXP\<close> is \<open>/(?:<!--)?ID: (\d+)/\<close>. \<open>ID_at\<close> matches \<open>ID: (\d+)\<close> at the
  start of a string and gives group 1, \<open>ID_REGEXP_at\<close> the whole expression at the
  start, \<open>ID_REGEXP_exec\<close> the leftmost match: its index and its group 1.
\<close>

definition ID_at :: "string \<Rightarrow> string option" where
  "ID_at s =
     (if startsWith s ''ID: '' \<and> takeWhile is_digit (drop 4 s) \<noteq> []
      then Some (takeWhile is_digit (drop 4 s)) else None)"

definition ID_REGEXP_at :: "string \<Rightarrow> string option" where
  "ID_REGEXP_at s =
     (if startsWith s ''<!--''
      then (case ID_at (drop 4 s) of Some d \<Rightarrow> Some d | None \<Rightarrow> ID_at s)
      else ID_at s)"

fun ID_REGEXP_exec :: "string \<Rightarrow> (nat \<times> string) option" where
  "ID_REGEXP_exec [] = None"
| "ID_REGEXP_exec (c # cs) =
     (case ID_REGEXP_at (c # cs) of
        Some d \<Rightarrow> Some (0, d)
      | None \<Rightarrow> map_option (\<lambda>(i, d). (Suc i, d)) (ID_REGEXP_exec cs))"

text \<open>
  \<open>InlineNote.TAG_REGEXP\<close> is \<open>/Tags: (.*)/\<close>: the leftmost \<open>Tags: \<close>, group 1
  running to the end of the line.
\<close>

fun TAG_REGEXP_exec :: "string \<Rightarrow> (nat \<times> string) option" where
  "TAG_REGEXP_exec [] = None"
| "TAG_REGEXP_exec (c # cs) =
     (if startsWith (c # cs) ''Tags: ''
      then Some (0, takeWhile (\<lambda>x. \<not> is_line_terminator x) (drop 6 (c # cs)))
      else map_option (\<lambda>(i, g). (Suc i, g)) (TAG_REGEXP_exec cs))"

text \<open>
  \<open>InlineNote.TYPE_REGEXP\<close> is \<open>/\[(.*?)\]/\<close>. \<open>TYPE_group\<close> reads, after an opening
  bracket, the characters up to the first closing bracket, none of them a line
  terminator; \<open>TYPE_REGEXP_exec\<close> gives the leftmost match: its index and group 1
  (the match itself is the group between its two brackets).
\<close>

fun TYPE_group :: "string \<Rightarrow> string option" where
  "TYPE_group [] = None"
| "TYPE_group (c # cs) =
     (if c = CHR '']'' then Some []
      else if is_line_terminator c then None
      else map_option ((#) c) (TYPE_group cs))"

fun TYPE_REGEXP_exec :: "string \<Rightarrow> (nat \<times> string) option" where
  "TYPE_REGEXP_exec [] = None"
| "TYPE_REGEXP_exec (c # cs) =
     (case (if c = CHR ''['' then TYPE_group cs else None) of
        Some g \<Rightarrow> Some (0, g)
      | None \<Rightarrow> map_option (\<lambda>(i, g). (Suc i, g)) (TYPE_REGEXP_exec cs))"

subsection \<open>Notes and their collaborators\<close>

definition TAG_PREFIX :: string where
  "TAG_PREFIX = ''Tags: ''"

definition TAG_SEP :: char where
  "TAG_SEP = CHR '' ''"

definition CLOZE_ERROR :: nat where
  "CLOZE_ERROR = 42"

definition NOTE_TYPE_ERROR :: nat where
  "NOTE_TYPE_ERROR = 69"

text \<open>
  \<open>AnkiConnectNote\<close> (\<open>interfaces/note-interface\<close>, not among the sources) with the
  properties the parsers write; \<open>note_fields\<close> and \<open>anki_tags\<close> are its properties
  \<open>fields\<close> and \<open>tags\<close>. A parsed note
  and its identifier, \<open>AnkiConnectNoteAndID\<close>, is a pair.
\<close>

record AnkiConnectNote =
  deckName :: string
  modelName :: "string option"
  note_fields :: "string obj"
  anki_tags :: "string list"

type_synonym AnkiConnectNoteAndID = "AnkiConnectNote \<times> number option"

text \<open>
  The fields dictionary, by its own properties. \<open>AbstractNote\<close> reads it after
  \<open>hasOwnProperty\<close>. \<open>RegexNote\<close> reads it without: a property it only inherits
  is no array, and iterating it is the \<open>TypeError\<close> that iterating \<open>undefined\<close> is.
\<close>

type_synonym FIELDS_DICT = "string \<rightharpoonup> string list"

type_synonym FROZEN_FIELDS_DICT = "string obj obj"

text \<open>The properties of \<open>FileData\<close> that \<open>parse\<close> reads.\<close>

record FileData =
  template :: AnkiConnectNote
  file_link_fields :: "string \<rightharpoonup> string"
  context_fields :: "string \<rightharpoonup> string"
  add_obs_tags :: bool

text \<open>
  \<open>FormatConverter\<close> (\<open>format.ts\<close>) is not among the sources: its three methods are
  parameters. So are the two regular expressions of \<open>constants.ts\<close>, by what the
  parsers do with them: \<open>ANKI_CLOZE_REGEXP.test(s)\<close>, the groups 1 of
  \<open>s.matchAll(OBS_TAG_REGEXP)\<close>, and \<open>s.replace(OBS_TAG_REGEXP, '')\<close>.
\<close>

record FormatConverter =
  format :: "string \<Rightarrow> bool \<Rightarrow> bool \<Rightarrow> string"
  format_note_with_url :: "AnkiConnectNote \<Rightarrow> string \<Rightarrow> string option \<Rightarrow> AnkiConnectNote"
  format_note_with_frozen_fields :: "AnkiConnectNote \<Rightarrow> FROZEN_FIELDS_DICT \<Rightarrow> AnkiConnectNote"

record constants =
  ANKI_CLOZE_REGEXP_test :: "string \<Rightarrow> bool"
  OBS_TAG_REGEXP_matchAll :: "string \<Rightarrow> string list"
  OBS_TAG_REGEXP_remove :: "string \<Rightarrow> string"

definition matchCloze :: "constants \<Rightarrow> string \<Rightarrow> bool" where
  "matchCloze cs s = ANKI_CLOZE_REGEXP_test cs s"

definition containsCloze :: "constants \<Rightarrow> AnkiConnectNote \<Rightarrow> bool" where
  "containsCloze cs note = list_ex (matchCloze cs) (map snd (note_fields note))"

text \<open>
  The state of an \<open>AbstractNote\<close>: \<open>this_text\<close>, \<open>this_identifier\<close> and
  \<open>this_tags\<close> are its properties \<open>text\<close>, \<open>identifier\<close> and \<open>tags\<close>,
  \<open>delete_flag\<close> is \<open>delete\<close>. The constructor returns early
  for a note type the fields dictionary does not have and leaves \<open>field_names\<close> and
  \<open>current_field\<close> undefined (\<open>None\<close>); \<open>curly_cloze\<close> and \<open>highlights_to_cloze\<close>,
  undefined as well then, are not read in that state. The formatter is passed to the
  methods that call it.
\<close>

record AbstractNote =
  this_text :: string
  split_text :: "string list"
  current_field_num :: nat
  delete_flag :: bool
  this_identifier :: "number option"
  this_tags :: "string list"
  note_type :: "string option"
  field_names :: "string list option"
  current_field :: "string option"
  curly_cloze :: bool
  highlights_to_cloze :: bool
  no_note_type :: bool

text \<open>Lines 68 to 77 of the constructor, after the four abstract methods have run.\<close>

definition AbstractNote_init ::
  "FIELDS_DICT \<Rightarrow> bool \<Rightarrow> bool \<Rightarrow> string \<Rightarrow> string list \<Rightarrow> number option \<Rightarrow> string list \<Rightarrow>
   string option \<Rightarrow> AbstractNote" where
  "AbstractNote_init fields_dict curly hl text' lines ident tgs ntype =
     (case fields_dict (js_string ntype) of
        None \<Rightarrow>
          \<lparr>this_text = text', split_text = lines, current_field_num = 0, delete_flag = False,
           this_identifier = ident, this_tags = tgs, note_type = ntype, field_names = None,
           current_field = None, curly_cloze = False, highlights_to_cloze = False,
           no_note_type = True\<rparr>
      | Some names \<Rightarrow>
          \<lparr>this_text = text', split_text = lines, current_field_num = 0, delete_flag = False,
           this_identifier = ident, this_tags = tgs, note_type = ntype, field_names = Some names,
           current_field = (case names of [] \<Rightarrow> None | f # _ \<Rightarrow> Some f),
           curly_cloze = curly, highlights_to_cloze = hl, no_note_type = False\<rparr>)"

subsection \<open>Note: the block note\<close>

definition Note_getSplitText :: "string \<Rightarrow> string list" where
  "Note_getSplitText text' = split_on newline text'"

text \<open>
  \<open>getIdentifier\<close>: the last line is tested (\<open>undefined\<close>, of an empty array, as the
  string \<open>undefined\<close>) and, when it matches, popped.
\<close>

definition Note_getIdentifier :: "string list \<Rightarrow> number option \<times> string list" where
  "Note_getIdentifier lines =
     (case ID_REGEXP_exec (js_string (if lines = [] then None else Some (last lines))) of
        Some (index, d) \<Rightarrow> (Some (parseInt (Some d)), butlast lines)
      | None \<Rightarrow> (None, lines))"

text \<open>\<open>getTags\<close>: \<open>startsWith\<close> on the last line of an empty array is a \<open>TypeError\<close>.\<close>

definition Note_getTags :: "string list \<Rightarrow> failure + string list \<times> string list" where
  "Note_getTags lines =
     (if lines = [] then Inl TypeError
      else if startsWith (last lines) TAG_PREFIX
      then Inr (split_on TAG_SEP (drop (length TAG_PREFIX) (last lines)), butlast lines)
      else Inr ([], lines))"

definition Note_getNoteType :: "string list \<Rightarrow> string option" where
  "Note_getNoteType lines = (case lines of [] \<Rightarrow> None | l # _ \<Rightarrow> Some l)"

definition Note_new :: "string \<Rightarrow> FIELDS_DICT \<Rightarrow> bool \<Rightarrow> bool \<Rightarrow> failure + AbstractNote" where
  "Note_new note_text fields_dict curly hl =
     (let text' = trim note_text in
      case Note_getIdentifier (Note_getSplitText text') of
        (ident, lines1) \<Rightarrow>
          (case Note_getTags lines1 of
             Inl e \<Rightarrow> Inl e
           | Inr (tgs, lines2) \<Rightarrow>
               Inr (AbstractNote_init fields_dict curly hl text' lines2 ident tgs
                      (Note_getNoteType lines2))))"

fun fieldFromLine_loop :: "string list \<Rightarrow> string \<Rightarrow> (string \<times> string) option" where
  "fieldFromLine_loop [] line = None"
| "fieldFromLine_loop (field # rest) line =
     (if startsWith line (field @ '':'')
      then Some (drop (length (field @ '':'')) line, field)
      else fieldFromLine_loop rest line)"

definition Note_fieldFromLine ::
  "string list \<Rightarrow> string option \<Rightarrow> string \<Rightarrow> string \<times> string option" where
  "Note_fieldFromLine names cur line =
     (case fieldFromLine_loop names line of
        Some (rest, field) \<Rightarrow> (rest, Some field)
      | None \<Rightarrow> (line, cur))"

text \<open>Lines 172 to 175, shared by the three \<open>getFields\<close>: every field starts empty.\<close>

definition empty_fields :: "string list \<Rightarrow> string obj" where
  "empty_fields names = foldl (\<lambda>flds field. obj_set flds field []) [] names"

text \<open>Lines 176 to 179: each line goes to the field \<open>fieldFromLine\<close> gives.\<close>

fun Note_lines_loop ::
  "string list \<Rightarrow> string list \<Rightarrow> string obj \<Rightarrow> string option \<Rightarrow> string obj \<times> string option" where
  "Note_lines_loop names [] flds cur = (flds, cur)"
| "Note_lines_loop names (line # rest) flds cur =
     (case Note_fieldFromLine names cur line of
        (line', cur') \<Rightarrow>
          Note_lines_loop names rest (obj_append flds (js_string cur') (line' @ [newline])) cur')"

text \<open>
  Lines 180 to 188, shared by the three \<open>getFields\<close>: every field is trimmed,
  formatted and trimmed. \<open>this.note_type.includes\<close> is evaluated once for each key,
  a \<open>TypeError\<close> when the note type is undefined.
\<close>

definition format_field :: "FormatConverter \<Rightarrow> string \<Rightarrow> bool \<Rightarrow> bool \<Rightarrow> string \<Rightarrow> string" where
  "format_field fc t curly hl v =
     trim (format fc (trim v) (includes_str t ''Cloze'' \<and> curly) hl)"

definition format_fields ::
  "FormatConverter \<Rightarrow> string option \<Rightarrow> bool \<Rightarrow> bool \<Rightarrow> string obj \<Rightarrow> failure + string obj" where
  "format_fields fc ntype curly hl flds =
     (if flds = [] then Inr []
      else (case ntype of
              None \<Rightarrow> Inl TypeError
            | Some t \<Rightarrow> Inr (map (\<lambda>(k, v). (k, format_field fc t curly hl v)) flds)))"

text \<open>
  \<open>Note.getFields\<close>. Iterating the undefined \<open>field_names\<close> is a \<open>TypeError\<close>. The
  method leaves \<open>current_field\<close> at the field of the last line.
\<close>

definition Note_getFields ::
  "FormatConverter \<Rightarrow> AbstractNote \<Rightarrow> failure + string obj \<times> AbstractNote" where
  "Note_getFields fc n =
     (case field_names n of
        None \<Rightarrow> Inl TypeError
      | Some names \<Rightarrow>
          (case Note_lines_loop names (drop 1 (split_text n)) (empty_fields names)
                  (current_field n) of
             (flds, cur) \<Rightarrow>
               (case format_fields fc (note_type n) (curly_cloze n) (highlights_to_cloze n) flds of
                  Inl e \<Rightarrow> Inl e
                | Inr flds' \<Rightarrow> Inr (flds', n\<lparr>current_field := cur\<rparr>))))"

subsection \<open>InlineNote\<close>

definition InlineNote_getSplitText :: "string \<Rightarrow> string list" where
  "InlineNote_getSplitText text' = split_on CHR '' '' text'"

definition InlineNote_getIdentifier :: "string \<Rightarrow> number option \<times> string" where
  "InlineNote_getIdentifier text' =
     (case ID_REGEXP_exec text' of
        Some (index, d) \<Rightarrow> (Some (parseInt (Some d)), trim (take index text'))
      | None \<Rightarrow> (None, text'))"

definition InlineNote_getTags :: "string \<Rightarrow> string list \<times> string" where
  "InlineNote_getTags text' =
     (case TAG_REGEXP_exec text' of
        Some (index, g) \<Rightarrow> (split_on TAG_SEP g, trim (take index text'))
      | None \<Rightarrow> ([], text'))"

text \<open>
  \<open>getNoteType\<close> reads \<open>result.index\<close> of a match that may be \<open>null\<close>: a
  \<open>TypeError\<close> then. The match is group 1 between two brackets.
\<close>

definition InlineNote_getNoteType :: "string \<Rightarrow> failure + string \<times> string" where
  "InlineNote_getNoteType text' =
     (case TYPE_REGEXP_exec text' of
        None \<Rightarrow> Inl TypeError
      | Some (index, g) \<Rightarrow> Inr (g, drop (index + (length g + 2)) text'))"

definition InlineNote_new :: "string \<Rightarrow> FIELDS_DICT \<Rightarrow> bool \<Rightarrow> bool \<Rightarrow> failure + AbstractNote" where
  "InlineNote_new note_text fields_dict curly hl =
     (let text0 = trim note_text in
      case InlineNote_getIdentifier text0 of
        (ident, text1) \<Rightarrow>
          (case InlineNote_getTags text1 of
             (tgs, text2) \<Rightarrow>
               (case InlineNote_getNoteType text2 of
                  Inl e \<Rightarrow> Inl e
                | Inr (ntype, text3) \<Rightarrow>
                    Inr (AbstractNote_init fields_dict curly hl text3
                           (InlineNote_getSplitText text0) ident tgs (Some ntype)))))"

text \<open>Lines 234 to 239: a word that is a field name and a colon selects the field.\<close>

fun InlineNote_fields_loop :: "string list \<Rightarrow> string \<Rightarrow> string option \<Rightarrow> string \<times> string option" where
  "InlineNote_fields_loop [] word cur = (word, cur)"
| "InlineNote_fields_loop (field # rest) word cur =
     (if word = field @ '':'' then InlineNote_fields_loop rest [] (Some field)
      else InlineNote_fields_loop rest word cur)"

fun InlineNote_words_loop ::
  "string list \<Rightarrow> string list \<Rightarrow> string obj \<Rightarrow> string option \<Rightarrow> string obj \<times> string option" where
  "InlineNote_words_loop names [] flds cur = (flds, cur)"
| "InlineNote_words_loop names (word # rest) flds cur =
     (case InlineNote_fields_loop names word cur of
        (word', cur') \<Rightarrow>
          InlineNote_words_loop names rest (obj_append flds (js_string cur') (word' @ '' '')) cur')"

definition InlineNote_getFields ::
  "FormatConverter \<Rightarrow> AbstractNote \<Rightarrow> failure + string obj \<times> AbstractNote" where
  "InlineNote_getFields fc n =
     (case field_names n of
        None \<Rightarrow> Inl TypeError
      | Some names \<Rightarrow>
          (case InlineNote_words_loop names (split_on CHR '' '' (this_text n))
                  (empty_fields names) (current_field n) of
             (flds, cur) \<Rightarrow>
               (case format_fields fc (note_type n) (curly_cloze n) (highlights_to_cloze n) flds of
                  Inl e \<Rightarrow> Inl e
                | Inr flds' \<Rightarrow> Inr (flds', n\<lparr>current_field := cur\<rparr>))))"

subsection \<open>AbstractNote.parse\<close>

text \<open>
  Lines 114 to 121: the tags of every field, in the order of the keys, are pushed to
  the tags of the note and removed from the field.
\<close>

fun obs_tags_loop ::
  "constants \<Rightarrow> string obj \<Rightarrow> string obj \<Rightarrow> string list \<Rightarrow> string obj \<times> string list" where
  "obs_tags_loop cs [] flds tgs = (flds, tgs)"
| "obs_tags_loop cs ((key, v) # rest) flds tgs =
     obs_tags_loop cs rest (flds @ [(key, OBS_TAG_REGEXP_remove cs v)])
       (tgs @ OBS_TAG_REGEXP_matchAll cs v)"

text \<open>
  \<open>parse\<close>, with the \<open>getFields\<close> of the subclass as a parameter. The second
  \<open>console.log\<close> (lines 96 to 102) evaluates \<open>this.getFields()\<close> before anything
  else is decided; the method is called a second time at line 105, on the state the
  first call left. An empty \<open>url\<close> or \<open>context\<close> is falsy.
\<close>

definition AbstractNote_parse ::
  "(AbstractNote \<Rightarrow> failure + string obj \<times> AbstractNote) \<Rightarrow> FormatConverter \<Rightarrow> constants \<Rightarrow>
   AbstractNote \<Rightarrow> string \<Rightarrow> string \<Rightarrow> FROZEN_FIELDS_DICT \<Rightarrow> FileData \<Rightarrow> string \<Rightarrow>
   failure + AnkiConnectNoteAndID" where
  "AbstractNote_parse getFields fc cs n deck url frozen_fields_dict data context =
     (case getFields n of
        Inl e \<Rightarrow> Inl e
      | Inr (logged, n1) \<Rightarrow>
          (let t1 = (template data)\<lparr>modelName := note_type n1\<rparr> in
           if no_note_type n1 then Inr (t1, Some (Id NOTE_TYPE_ERROR))
           else
             (case getFields n1 of
                Inl e \<Rightarrow> Inl e
              | Inr (flds, n2) \<Rightarrow>
                  (let t2 = t1\<lparr>note_fields := flds\<rparr>;
                       t3 = (if url \<noteq> []
                             then format_note_with_url fc t2 url
                                    (dict_read (file_link_fields data) (js_string (note_type n2)))
                             else t2);
                       t4 = (if frozen_fields_dict \<noteq> []
                             then format_note_with_frozen_fields fc t3 frozen_fields_dict
                             else t3);
                       t5 = (if context \<noteq> []
                             then t4\<lparr>note_fields :=
                                    obj_append (note_fields t4)
                                      (js_string (dict_read (context_fields data)
                                                   (js_string (note_type n2))))
                                      context\<rparr>
                             else t4)
                   in case (if add_obs_tags data
                            then obs_tags_loop cs (note_fields t5) [] (this_tags n2)
                            else (note_fields t5, this_tags n2)) of
                        (flds6, tgs) \<Rightarrow>
                          (let t6 = t5\<lparr>note_fields := flds6\<rparr>;
                               t7 = t6\<lparr>anki_tags := anki_tags t6 @ tgs\<rparr>;
                               t8 = t7\<lparr>deckName := deck\<rparr>
                           in if modelName t8 = Some ''Cloze'' \<and> \<not> containsCloze cs t8
                              then Inr (t8, Some (Id CLOZE_ERROR))
                              else Inr (t8, this_identifier n2))))))"

definition Note_parse ::
  "FormatConverter \<Rightarrow> constants \<Rightarrow> AbstractNote \<Rightarrow> string \<Rightarrow> string \<Rightarrow> FROZEN_FIELDS_DICT \<Rightarrow>
   FileData \<Rightarrow> string \<Rightarrow> failure + AnkiConnectNoteAndID" where
  "Note_parse fc = AbstractNote_parse (Note_getFields fc) fc"

definition InlineNote_parse ::
  "FormatConverter \<Rightarrow> constants \<Rightarrow> AbstractNote \<Rightarrow> string \<Rightarrow> string \<Rightarrow> FROZEN_FIELDS_DICT \<Rightarrow>
   FileData \<Rightarrow> string \<Rightarrow> failure + AnkiConnectNoteAndID" where
  "InlineNote_parse fc = AbstractNote_parse (InlineNote_getFields fc) fc"

subsection \<open>RegexNote\<close>

text \<open>
  The properties of a \<open>RegexNote\<close>, prefixed \<open>re_\<close>. A capture group that took no
  part in the match is \<open>undefined\<close>.
\<close>

record RegexNote =
  re_match :: "string option list"
  re_note_type :: string
  re_identifier :: "number option"
  re_tags :: "string list"
  re_field_names :: "string list option"
  re_curly_cloze :: bool
  re_highlights_to_cloze :: bool

text \<open>\<open>Array.pop\<close>: the last element, \<open>undefined\<close> of an empty array.\<close>

definition pop :: "'a option list \<Rightarrow> 'a option \<times> 'a option list" where
  "pop xs = (if xs = [] then (None, []) else (last xs, butlast xs))"

text \<open>
  The constructor pops the identifier first, then the tags; \<open>slice\<close> on an
  undefined tags group is a \<open>TypeError\<close>.
\<close>

definition RegexNote_new ::
  "string option list \<Rightarrow> string \<Rightarrow> FIELDS_DICT \<Rightarrow> bool \<Rightarrow> bool \<Rightarrow> bool \<Rightarrow> bool \<Rightarrow>
   failure + RegexNote" where
  "RegexNote_new match note_type' fields_dict tags' id' curly hl =
     (case (if id' then (case pop match of (v, m) \<Rightarrow> (Some (parseInt v), m))
            else (None, match)) of
        (ident, match1) \<Rightarrow>
          (case (if tags'
                 then (case pop match1 of
                         (None, m) \<Rightarrow> Inl TypeError
                       | (Some t, m) \<Rightarrow>
                           Inr (split_on TAG_SEP (drop (length TAG_PREFIX) t), m))
                 else Inr ([], match1)) of
             Inl e \<Rightarrow> Inl e
           | Inr (tgs, match2) \<Rightarrow>
               Inr \<lparr>re_match = match2, re_note_type = note_type', re_identifier = ident,
                    re_tags = tgs, re_field_names = fields_dict note_type',
                    re_curly_cloze = curly, re_highlights_to_cloze = hl\<rparr>))"

text \<open>
  Lines 291 to 293: group \<open>index\<close> goes to the field \<open>field_names[index]\<close>, which
  is \<open>undefined\<close> beyond the declared fields; an undefined or empty group gives the
  empty string.
\<close>

fun RegexNote_groups_loop ::
  "string list \<Rightarrow> nat \<Rightarrow> string option list \<Rightarrow> string obj \<Rightarrow> string obj" where
  "RegexNote_groups_loop names index [] flds = flds"
| "RegexNote_groups_loop names index (g # rest) flds =
     RegexNote_groups_loop names (Suc index) rest
       (obj_set flds (js_string (if index < length names then Some (names ! index) else None))
          (case g of None \<Rightarrow> [] | Some s \<Rightarrow> s))"

definition RegexNote_getFields :: "FormatConverter \<Rightarrow> RegexNote \<Rightarrow> failure + string obj" where
  "RegexNote_getFields fc r =
     (case re_field_names r of
        None \<Rightarrow> Inl TypeError
      | Some names \<Rightarrow>
          format_fields fc (Some (re_note_type r)) (re_curly_cloze r) (re_highlights_to_cloze r)
            (RegexNote_groups_loop names 0 (drop 1 (re_match r)) (empty_fields names)))"

text \<open>\<open>RegexNote.parse\<close>, lines 306 to 330.\<close>

definition RegexNote_parse ::
  "FormatConverter \<Rightarrow> RegexNote \<Rightarrow> string \<Rightarrow> string \<Rightarrow> FROZEN_FIELDS_DICT \<Rightarrow> FileData \<Rightarrow> string \<Rightarrow>
   failure + AnkiConnectNoteAndID" where
  "RegexNote_parse fc r deck url frozen_fields_dict data context =
     (case RegexNote_getFields fc r of
        Inl e \<Rightarrow> Inl e
      | Inr flds \<Rightarrow>
          (let t1 = (template data)\<lparr>modelName := Some (re_note_type r)\<rparr>;
               t2 = t1\<lparr>note_fields := flds\<rparr>;
               t3 = (if url \<noteq> []
                     then format_note_with_url fc t2 url
                            (dict_read (file_link_fields data) (re_note_type r))
                     else t2);
               t4 = (if frozen_fields_dict \<noteq> []
                     then format_note_with_frozen_fields fc t3 frozen_fields_dict
                     else t3);
               t5 = (if context \<noteq> []
                     then t4\<lparr>note_fields :=
                            obj_append (note_fields t4)
                              (js_string (dict_read (context_fields data) (re_note_type r)))
                              context\<rparr>
                     else t4);
               t6 = t5\<lparr>anki_tags := anki_tags t5 @ re_tags r\<rparr>;
               t7 = t6\<lparr>deckName := deck\<rparr>
           in Inr (t7, re_identifier r)))"

subsection \<open>The text a field captures\<close>

text \<open>
  What \<open>getFields\<close> gives to the fields, piece by piece and in order: for a block
  note the field and the rest of the line that \<open>fieldFromLine\<close> returns for each
  line of the body, with its line feed; for an inline note the field and the word
  the inner loop leaves for each word, with its space; for a regex note the field of
  each group, \<open>field_names[index]\<close>, and the text of the group.
\<close>

fun Note_captures ::
  "string list \<Rightarrow> string option \<Rightarrow> string list \<Rightarrow> (string option \<times> string) list" where
  "Note_captures names cur [] = []"
| "Note_captures names cur (line # rest) =
     (case Note_fieldFromLine names cur line of
        (line', cur') \<Rightarrow> (cur', line' @ [newline]) # Note_captures names cur' rest)"

fun InlineNote_captures ::
  "string list \<Rightarrow> string option \<Rightarrow> string list \<Rightarrow> (string option \<times> string) list" where
  "InlineNote_captures names cur [] = []"
| "InlineNote_captures names cur (word # rest) =
     (case InlineNote_fields_loop names word cur of
        (word', cur') \<Rightarrow> (cur', word' @ '' '') # InlineNote_captures names cur' rest)"

fun RegexNote_captures ::
  "string list \<Rightarrow> nat \<Rightarrow> string option list \<Rightarrow> (string option \<times> string) list" where
  "RegexNote_captures names index [] = []"
| "RegexNote_captures names index (g # rest) =
     (if index < length names then Some (names ! index) else None,
      case g of None \<Rightarrow> [] | Some s \<Rightarrow> s) #
     RegexNote_captures names (Suc index) rest"

text \<open>
  The text of a field: of a block or an inline note all the pieces the field was
  given, one after the other (\<open>captured\<close>); of a regex note the piece it was given
  last, the empty text if it was given none (\<open>assigned\<close>).
\<close>

definition captured :: "(string option \<times> string) list \<Rightarrow> string \<Rightarrow> string" where
  "captured pieces field = concat (map snd (filter (\<lambda>(f, s). f = Some field) pieces))"

fun assigned :: "(string option \<times> string) list \<Rightarrow> string \<Rightarrow> string \<Rightarrow> string" where
  "assigned [] field v = v"
| "assigned ((f, s) # pieces) field v = assigned pieces field (if f = Some field then s else v)"

subsection \<open>Example collaborators of the parsers\<close>

text \<open>
  Modelled from the spec: cloze markup \<open>{{c<N>::...}}\<close>, the pattern of
  \<open>ANKI_CLOZE_REGEXP\<close> (\<open>constants.ts\<close> is not among the sources): two opening
  braces, \<open>c\<close>, digits, two colons, at least one character, two closing braces.
\<close>

definition cloze_at :: "string \<Rightarrow> bool" where
  "cloze_at s =
     (startsWith s ''{{c'' \<and>
      (let ds = takeWhile is_digit (drop 3 s);
           r = drop (length ds) (drop 3 s)
       in ds \<noteq> [] \<and> startsWith r ''::'' \<and> includes_str (drop 3 r) ''}}''))"

fun has_cloze :: "string \<Rightarrow> bool" where
  "has_cloze [] = False"
| "has_cloze (c # cs) = (cloze_at (c # cs) \<or> has_cloze cs)"

text \<open>
  For the examples: a formatter that leaves every text and every note as it is,
  constants with the cloze pattern above and no Obsidian tags, a fields dictionary
  with the note types \<open>Basic\<close> and \<open>Cloze\<close>, and file data with an empty template.
\<close>

definition example_formatter :: FormatConverter where
  "example_formatter =
     \<lparr>format = (\<lambda>s curly hl. s), format_note_with_url = (\<lambda>note url field. note),
      format_note_with_frozen_fields = (\<lambda>note frozen. note)\<rparr>"

definition example_constants :: constants where
  "example_constants =
     \<lparr>ANKI_CLOZE_REGEXP_test = has_cloze, OBS_TAG_REGEXP_matchAll = (\<lambda>s. []),
      OBS_TAG_REGEXP_remove = (\<lambda>s. s)\<rparr>"

definition example_fields_dict :: FIELDS_DICT where
  "example_fields_dict = [''Basic'' \<mapsto> [''Front'', ''Back''], ''Cloze'' \<mapsto> [''Text'', ''Extra'']]"

text \<open>
  A fields dictionary with a note type that has no field, one that has a field named
  \<open>__proto__\<close> and one whose name is \<open>undefined\<close>, and a formatter that wraps every
  text in a paragraph.
\<close>

definition example_odd_fields_dict :: FIELDS_DICT where
  "example_odd_fields_dict =
     [''Empty'' \<mapsto> [], ''Proto'' \<mapsto> [''__proto__'', ''B''], ''undefined'' \<mapsto> [''F'']]"

definition example_markup_formatter :: FormatConverter where
  "example_markup_formatter =
     \<lparr>format = (\<lambda>s curly hl. ''<p>'' @ s @ ''</p>''),
      format_note_with_url = (\<lambda>note url field. note),
      format_note_with_frozen_fields = (\<lambda>note frozen. note)\<rparr>"

definition example_data :: FileData where
  "example_data =
     \<lparr>template = \<lparr>deckName = ''Default'', modelName = None, note_fields = [], anki_tags = []\<rparr>,
      file_link_fields = Map.empty, context_fields = Map.empty, add_obs_tags = False\<rparr>"

text \<open>
  The fields of a span read as a block note, \<open>new Note(span, ...).getFields()\<close>,
  without cloze or highlight conversion.
\<close>

definition example_block_fields ::
  "FormatConverter \<Rightarrow> FIELDS_DICT \<Rightarrow> string \<Rightarrow> failure + string obj" where
  "example_block_fields fc fields_dict span =
     (case Note_new span fields_dict False False of
        Inl e \<Rightarrow> Inl e
      | Inr n \<Rightarrow> (case Note_getFields fc n of Inl e \<Rightarrow> Inl e | Inr (flds, n') \<Rightarrow> Inr flds))"

text \<open>
  A span is parsed as the scanner does it, \<open>new Note(span, ...).parse(...)\<close>: here
  with the example collaborators, the deck \<open>Deck\<close>, and no link, frozen fields or
  context.
\<close>

definition example_block_parse :: "string \<Rightarrow> failure + AnkiConnectNoteAndID" where
  "example_block_parse span =
     (case Note_new span example_fields_dict False False of
        Inl e \<Rightarrow> Inl e
      | Inr n \<Rightarrow> Note_parse example_formatter example_constants n ''Deck'' [] [] example_data [])"

section \<open>Properties\<close>

subsection \<open>Selecting the documents to scan\<close>

lemma genAllFiles_loop_Some:
  "genAllFiles_loop h v (map Some fs) own =
     Inr (own @ map (\<lambda>p. new_AllFile h (contents v p) p) fs)"
  by (induction fs arbitrary: own) simp_all

lemma initialiseFiles_loop_own:
  "fst (initialiseFiles_loop h hs fs i own fc oc) =
     fc @ map (\<lambda>f. f\<lparr>scan := scanFile h f\<rparr>) (filter (changed_or_new h hs) own)"
  by (induction own arbitrary: i fc oc) simp_all

lemma initialiseFiles_loop_files:
  "\<forall>j < length own. js_index fs (i + j) = Some (path (own ! j)) \<Longrightarrow>
   snd (initialiseFiles_loop h hs fs i own fc oc) =
     oc @ map (\<lambda>f. Some (path f)) (filter (changed_or_new h hs) own)"
proof (induction own arbitrary: i fc oc)
  case Nil
  then show ?case by simp
next
  case (Cons f own)
  have rest: "\<forall>j < length own. js_index fs (Suc i + j) = Some (path (own ! j))"
    using Cons.prems by fastforce
  have here: "js_index fs i = Some (path f)"
    using Cons.prems by fastforce
  show ?case
    using Cons.IH [OF rest] here by simp
qed

lemma changed_or_new_shouldScan:
  "changed_or_new h hs f = shouldScan h hs (path f) (file_text f)"
  by (auto simp: changed_or_new_def shouldScan_def)

lemma initialiseFiles_new:
  "initialiseFiles h v (FileManager_new fs hashes media) =
     Inr \<lparr>files = map Some (filter (\<lambda>p. shouldScan h hashes p (contents v p)) fs),
          ownFiles = map (\<lambda>p. (new_AllFile h (contents v p) p)
                                 \<lparr>scan := scanFile h (new_AllFile h (contents v p) p)\<rparr>)
                       (filter (\<lambda>p. shouldScan h hashes p (contents v p)) fs),
          file_hashes = hashes, added_media_set = new_Set media\<rparr>"
proof -
  let ?own = "map (\<lambda>p. new_AllFile h (contents v p) p) fs"
  let ?P = "\<lambda>p. shouldScan h hashes p (contents v p)"
  have idx: "\<forall>j < length ?own. js_index (map Some fs) (0 + j) = Some (path (?own ! j))"
    by (simp add: js_index_def new_AllFile_def)
  have filt: "filter (changed_or_new h hashes) ?own =
      map (\<lambda>p. new_AllFile h (contents v p) p) (filter ?P fs)"
    by (simp add: filter_map o_def changed_or_new_shouldScan new_AllFile_def)
  obtain a b where ab: "initialiseFiles_loop h hashes (map Some fs) 0 ?own [] [] = (a, b)"
    by (cases "initialiseFiles_loop h hashes (map Some fs) 0 ?own [] []")
  have a: "a = map (\<lambda>f. f\<lparr>scan := scanFile h f\<rparr>) (filter (changed_or_new h hashes) ?own)"
    using initialiseFiles_loop_own [of h hashes "map Some fs" 0 ?own "[]" "[]"] ab by simp
  have b: "b = map (\<lambda>f. Some (path f)) (filter (changed_or_new h hashes) ?own)"
    using initialiseFiles_loop_files [OF idx, of h hashes "[]" "[]"] ab by simp
  show ?thesis
    unfolding initialiseFiles_def genAllFiles_def FileManager_new_def
    using ab a b filt
    by (simp add: genAllFiles_loop_Some o_def new_AllFile_def)
qed

text \<open>
  C2 (change detection). The condition under which \<open>initialiseFiles\<close> scans a
  document is the specification's \<open>shouldScan\<close>: no fingerprint is stored for the
  document's path, or the stored one is not the hash of the document's current text.
  On the manager \<open>scanVault\<close> constructs, \<open>initialiseFiles\<close> returns, and the
  documents it keeps for scanning (and their vault files) are exactly those of the
  vault's files, in order, for which \<open>shouldScan\<close> holds; a document whose stored
  fingerprint is the hash of its text is not among them.
\<close>

theorem change_detection:
  "changed_or_new h hashes d = shouldScan h hashes (path d) (file_text d) \<and>
   (\<exists>m. initialiseFiles h v (FileManager_new fs hashes media) = Inr m \<and>
        map path (ownFiles m) = filter (\<lambda>p. shouldScan h hashes p (contents v p)) fs \<and>
        map file_text (ownFiles m) =
          map (contents v) (filter (\<lambda>p. shouldScan h hashes p (contents v p)) fs) \<and>
        files m = map Some (filter (\<lambda>p. shouldScan h hashes p (contents v p)) fs))"
  by (simp add: changed_or_new_shouldScan initialiseFiles_new o_def new_AllFile_def)

theorem change_detection_witness:
  "\<exists>m. initialiseFiles example_host example_vault
          (FileManager_new [''a.md'', ''b.md''] [''a.md'' \<mapsto> ''Q''] []) = Inr m \<and>
       map path (ownFiles m) = [''b.md''] \<and> files m = [Some ''b.md'']"
  using change_detection [of example_host "[''a.md'' \<mapsto> ''Q'']"
      "new_AllFile example_host ''Q'' ''a.md''" example_vault "[''a.md'', ''b.md'']" "[]"]
  by (auto simp: shouldScan_def example_host_def example_vault_def)

subsection \<open>Reconciling the create responses\<close>

lemma note_ids_of_file_ids:
  "fst (note_ids_of_file p i rs ids lg) = ids @ map result rs"
  by (induction rs arbitrary: i ids lg)
     (auto simp: AnkiConnect_parse_def split: option.splits)

lemma note_ids_of_file_log_mono:
  "set lg \<subseteq> set (snd (note_ids_of_file p i rs ids lg))"
proof (induction rs arbitrary: i ids lg)
  case Nil
  then show ?case by simp
next
  case (Cons r rs)
  show ?case
  proof (cases "error r")
    case None
    then show ?thesis using Cons [where i = "Suc i" and ids = "ids @ [result r]" and lg = lg]
      by (simp add: AnkiConnect_parse_def)
  next
    case (Some e)
    then show ?thesis
      using Cons [where i = "Suc i" and ids = "ids @ [result r]"
          and lg = "lg @ [FailedToAddNote i p e]"]
      by (simp add: AnkiConnect_parse_def)
  qed
qed

lemma note_ids_of_file_log:
  "k < length rs \<Longrightarrow> error (rs ! k) = Some e \<Longrightarrow>
   FailedToAddNote (i + k) p e \<in> set (snd (note_ids_of_file p i rs ids lg))"
proof (induction rs arbitrary: i k ids lg)
  case Nil
  then show ?case by simp
next
  case (Cons r rs)
  show ?case
  proof (cases k)
    case 0
    then have "error r = Some e" using Cons.prems by simp
    then show ?thesis
      using 0 note_ids_of_file_log_mono
        [of "lg @ [FailedToAddNote i p e]" p "Suc i" rs "ids @ [result r]"]
      by (simp add: AnkiConnect_parse_def)
  next
    case (Suc k')
    then have k': "k' < length rs" "error (rs ! k') = Some e"
      using Cons.prems by simp_all
    show ?thesis
    proof (cases "error r")
      case None
      then show ?thesis
        using Cons.IH [OF k', where i = "Suc i" and ids = "ids @ [result r]" and lg = lg] Suc
        by (simp add: AnkiConnect_parse_def)
    next
      case (Some e')
      then show ?thesis
        using Cons.IH [OF k', where i = "Suc i" and ids = "ids @ [result r]"
            and lg = "lg @ [FailedToAddNote i p e']"] Suc
        by (simp add: AnkiConnect_parse_def)
    qed
  qed
qed

text \<open>One step of the loop over the documents.\<close>

lemma note_ids_loop_Cons:
  "i < length own \<Longrightarrow>
   note_ids_loop i (fr # rest) own lg =
     note_ids_loop (Suc i) rest
       (own[i := (own ! i)\<lparr>note_ids := map result (for_in (result fr))\<rparr>])
       (snd (note_ids_of_file (path (own ! i)) 0 (for_in (result fr)) []
          (case error fr of None \<Rightarrow> lg | Some e \<Rightarrow> lg @ [ConsoleError e])))"
  by (cases "error fr")
     (simp_all add: AnkiConnect_parse_def split_beta note_ids_of_file_ids)

lemma note_ids_loop_result:
  "i + length frs \<le> length own \<Longrightarrow>
   \<exists>own' lg'. note_ids_loop i frs own lg = Inr (own', lg') \<and>
     length own' = length own \<and>
     map path own' = map path own \<and>
     map file_text own' = map file_text own \<and>
     map original_file own' = map original_file own \<and>
     (\<forall>k < length frs. note_ids (own' ! (i + k)) = map result (for_in (result (frs ! k)))) \<and>
     (\<forall>j < length own. j < i \<or> i + length frs \<le> j \<longrightarrow> own' ! j = own ! j) \<and>
     set lg \<subseteq> set lg' \<and>
     (\<forall>k < length frs. \<forall>j < length (for_in (result (frs ! k))). \<forall>e.
        error (for_in (result (frs ! k)) ! j) = Some e \<longrightarrow>
        FailedToAddNote j (path (own ! (i + k))) e \<in> set lg')"
proof (induction frs arbitrary: i own lg)
  case Nil
  then show ?case by simp
next
  case (Cons fr rest)
  let ?own1 = "own[i := (own ! i)\<lparr>note_ids := map result (for_in (result fr))\<rparr>]"
  let ?lg0 = "case error fr of None \<Rightarrow> lg | Some e \<Rightarrow> lg @ [ConsoleError e]"
  let ?lg1 = "snd (note_ids_of_file (path (own ! i)) 0 (for_in (result fr)) [] ?lg0)"
  have i: "i < length own" using Cons.prems by simp
  have le: "Suc i + length rest \<le> length ?own1" using Cons.prems by simp
  obtain own' lg' where
    run: "note_ids_loop (Suc i) rest ?own1 ?lg1 = Inr (own', lg')" and
    len: "length own' = length ?own1" and
    pth: "map path own' = map path ?own1" and
    ftx: "map file_text own' = map file_text ?own1" and
    org: "map original_file own' = map original_file ?own1" and
    ids: "\<forall>k < length rest. note_ids (own' ! (Suc i + k)) = map result (for_in (result (rest ! k)))" and
    oth: "\<forall>j < length ?own1. j < Suc i \<or> Suc i + length rest \<le> j \<longrightarrow> own' ! j = ?own1 ! j" and
    mono: "set ?lg1 \<subseteq> set lg'" and
    logd: "\<forall>k < length rest. \<forall>j < length (for_in (result (rest ! k))). \<forall>e.
        error (for_in (result (rest ! k)) ! j) = Some e \<longrightarrow>
        FailedToAddNote j (path (?own1 ! (Suc i + k))) e \<in> set lg'"
    using Cons.IH [OF le, where lg = ?lg1] by blast
  have step: "note_ids_loop i (fr # rest) own lg = Inr (own', lg')"
    using note_ids_loop_Cons [OF i, of fr rest lg] run by simp
  have upd_path: "map path ?own1 = map path own"
    using i by (simp add: map_update list_update_same_conv)
  have upd_txt: "map file_text ?own1 = map file_text own"
    using i by (simp add: map_update list_update_same_conv)
  have upd_org: "map original_file ?own1 = map original_file own"
    using i by (simp add: map_update list_update_same_conv)
  have lg0: "set lg \<subseteq> set ?lg0" by (cases "error fr") auto
  have lg01: "set ?lg0 \<subseteq> set ?lg1" by (rule note_ids_of_file_log_mono)
  have ids': "\<forall>k < length (fr # rest).
      note_ids (own' ! (i + k)) = map result (for_in (result ((fr # rest) ! k)))"
  proof (intro allI impI)
    fix k assume k: "k < length (fr # rest)"
    show "note_ids (own' ! (i + k)) = map result (for_in (result ((fr # rest) ! k)))"
    proof (cases k)
      case 0
      have "own' ! i = ?own1 ! i" using oth i by simp
      then show ?thesis using 0 i by simp
    next
      case (Suc k')
      then show ?thesis using ids k by simp
    qed
  qed
  have oth': "\<forall>j < length own. j < i \<or> i + length (fr # rest) \<le> j \<longrightarrow> own' ! j = own ! j"
  proof (intro allI impI)
    fix j assume j: "j < length own" and c: "j < i \<or> i + length (fr # rest) \<le> j"
    then have "own' ! j = ?own1 ! j" using oth by auto
    moreover have "j \<noteq> i" using c by auto
    ultimately show "own' ! j = own ! j" by simp
  qed
  have logd': "\<forall>k < length (fr # rest). \<forall>j < length (for_in (result ((fr # rest) ! k))). \<forall>e.
        error (for_in (result ((fr # rest) ! k)) ! j) = Some e \<longrightarrow>
        FailedToAddNote j (path (own ! (i + k))) e \<in> set lg'"
  proof (intro allI impI)
    fix k j e
    assume k: "k < length (fr # rest)"
      and j: "j < length (for_in (result ((fr # rest) ! k)))"
      and e: "error (for_in (result ((fr # rest) ! k)) ! j) = Some e"
    show "FailedToAddNote j (path (own ! (i + k))) e \<in> set lg'"
    proof (cases k)
      case 0
      then have "FailedToAddNote (0 + j) (path (own ! i)) e \<in> set ?lg1"
        using j e by (intro note_ids_of_file_log) simp_all
      then show ?thesis using mono 0 by auto
    next
      case (Suc k')
      then have "FailedToAddNote j (path (?own1 ! (Suc i + k'))) e \<in> set lg'"
        using logd k j e by simp
      moreover have "path (?own1 ! (Suc i + k')) = path (own ! (Suc i + k'))"
        by simp
      ultimately show ?thesis using Suc by simp
    qed
  qed
  show ?case
    using step len pth ftx org ids' oth' mono lg0 lg01 logd' upd_path upd_txt upd_org
    by (intro exI [of _ own'] exI [of _ lg']) auto
qed


lemma note_ids_loop_Inr_length:
  "note_ids_loop i frs own lg = Inr (own', lg') \<Longrightarrow> i \<le> length own \<Longrightarrow>
   i + length frs \<le> length own"
proof (induction frs arbitrary: i own lg)
  case Nil
  then show ?case by simp
next
  case (Cons fr rest)
  have i: "i < length own"
    using Cons.prems(1) by (auto simp: split_beta split: if_splits sum.splits)
  have "Suc i + length rest \<le>
      length (own[i := (own ! i)\<lparr>note_ids := map result (for_in (result fr))\<rparr>])"
    using Cons.prems(1) i unfolding note_ids_loop_Cons [OF i] by (intro Cons.IH) simp_all
  then show ?case by simp
qed

lemma note_ids_loop_preserves:
  assumes "note_ids_loop 0 frs own lg = Inr (own', lg')"
  shows "length own' = length own \<and> map path own' = map path own \<and>
         map file_text own' = map file_text own \<and>
         map original_file own' = map original_file own"
  using note_ids_loop_result [OF note_ids_loop_Inr_length [OF assms], of lg] assms by auto

lemma card_ids_loop_preserves:
  "card_ids_loop i frs own = Inr own' \<Longrightarrow>
   length own' = length own \<and> map path own' = map path own \<and>
   map file_text own' = map file_text own \<and>
   map original_file own' = map original_file own"
proof (induction frs arbitrary: i own)
  case Nil
  then show ?case by simp
next
  case (Cons fr rest)
  from Cons.prems obtain infos :: "noteInfo list" where
    i: "i < length own" and
    run: "card_ids_loop (Suc i) rest
            (own[i := (own ! i)\<lparr>card_ids := concat (map cards infos)\<rparr>]) = Inr own'"
    by (auto split: sum.splits option.splits if_splits)
  show ?case
    using Cons.IH [OF run] i by (simp add: map_update list_update_same_conv)
qed

lemma rewritten_fields [simp]:
  "path (rewritten h tgs f) = path f"
  "original_file (rewritten h tgs f) = original_file f"
  by (simp_all add: rewritten_def AllFile_writeIDs_def AllFile_removeEmpties_def)

lemma write_back_loop_result:
  "\<forall>j < length own. js_index fs (i + j) = Some (path (own ! j)) \<Longrightarrow>
   write_back_loop h tgs fs i own acc writes =
     Inr (acc @ map (rewritten h tgs) own,
          writes @ map (\<lambda>f. (path f, file_text f))
                     (filter (\<lambda>f. file_text f \<noteq> original_file f) (map (rewritten h tgs) own)))"
proof (induction own arbitrary: i acc writes)
  case Nil
  then show ?case by simp
next
  case (Cons f own)
  have rest: "\<forall>j < length own. js_index fs (Suc i + j) = Some (path (own ! j))"
    using Cons.prems by fastforce
  have here: "js_index fs i = Some (path f)"
    using Cons.prems by fastforce
  show ?case
    using Cons.IH [OF rest] here by (simp add: Let_def)
qed

lemma apply_writes_Cons:
  "apply_writes v (w # ws) = apply_writes (modify v (fst w) (snd w)) ws"
  by (simp add: apply_writes_def split_beta)

lemma apply_writes_files [simp]:
  "getMarkdownFiles (apply_writes v ws) = getMarkdownFiles v"
proof (induction ws arbitrary: v)
  case Nil
  then show ?case by (simp add: apply_writes_def)
next
  case (Cons w ws)
  then show ?case by (simp add: apply_writes_Cons modify_def)
qed

lemma apply_writes_other:
  "p \<notin> fst ` set ws \<Longrightarrow> contents (apply_writes v ws) p = contents v p"
proof (induction ws arbitrary: v)
  case Nil
  then show ?case by (simp add: apply_writes_def)
next
  case (Cons w ws)
  then show ?case by (simp add: apply_writes_Cons modify_def)
qed

lemma apply_writes_written:
  "distinct (map fst ws) \<Longrightarrow> (p, t) \<in> set ws \<Longrightarrow> contents (apply_writes v ws) p = t"
proof (induction ws arbitrary: v)
  case Nil
  then show ?case by simp
next
  case (Cons w ws)
  show ?case
  proof (cases "w = (p, t)")
    case True
    then have "p \<notin> fst ` set ws" using Cons.prems by auto
    then show ?thesis
      using True by (simp add: apply_writes_Cons apply_writes_other modify_def)
  next
    case False
    then show ?thesis
      using Cons by (simp add: apply_writes_Cons)
  qed
qed

lemma foldl_hashes_other:
  "p \<notin> path ` set own \<Longrightarrow>
   foldl (\<lambda>res f. res(path f \<mapsto> g f)) m0 own p = m0 p"
  by (induction own arbitrary: m0) auto

lemma foldl_hashes_own:
  "distinct (map path own) \<Longrightarrow> f \<in> set own \<Longrightarrow>
   foldl (\<lambda>res f. res(path f \<mapsto> g f)) m0 own (path f) = Some (g f)"
proof (induction own arbitrary: m0)
  case Nil
  then show ?case by simp
next
  case (Cons a own)
  show ?case
  proof (cases "f = a")
    case True
    then have "path a \<notin> path ` set own" using Cons.prems by auto
    then have "foldl (\<lambda>res f. res(path f \<mapsto> g f)) (m0(path a \<mapsto> g a)) own (path a) =
        (m0(path a \<mapsto> g a)) (path a)"
      by (rule foldl_hashes_other)
    moreover have "(m0(path a \<mapsto> g a)) (path a) = Some (g a)" by simp
    ultimately show ?thesis using True by (simp only: foldl_Cons)
  next
    case False
    then show ?thesis using Cons by auto
  qed
qed

lemma map_eq_nth:
  "map f xs = map g ys \<Longrightarrow> j < length xs \<Longrightarrow> f (xs ! j) = g (ys ! j)"
  by (metis length_map nth_map)

lemma parse_requests_1_result:
  assumes run: "parse_requests_1 h response m v = Inr (m', v', writes, sent, lg)"
      and fs: "files m = map (\<lambda>f. Some (path f)) (ownFiles m)"
  shows "\<exists>own2 tag_list.
           length own2 = length (ownFiles m) \<and>
           map path own2 = map path (ownFiles m) \<and>
           map file_text own2 = map file_text (ownFiles m) \<and>
           map original_file own2 = map original_file (ownFiles m) \<and>
           ownFiles m' = map (rewritten h tag_list) own2 \<and>
           writes = map (\<lambda>f. (path f, file_text f))
                      (filter (\<lambda>f. file_text f \<noteq> original_file f) (ownFiles m')) \<and>
           v' = apply_writes v writes \<and>
           sent = requests_2_actions h m' \<and>
           m' = m\<lparr>ownFiles := ownFiles m'\<rparr>"
proof -
  from run obtain media ni tag_list own1 lg1 own2 own3 where
    l1: "note_ids_loop 0 (for_in (result (res0 response))) (ownFiles m) lg1 = Inr (own1, lg)" and
    l2: "card_ids_loop 0 (for_in ni) own1 = Inr own2" and
    l3: "write_back_loop h tag_list (files m) 0 own2 [] [] = Inr (own3, writes)" and
    m': "m' = m\<lparr>ownFiles := own3\<rparr>" and
    v': "v' = apply_writes v writes" and
    sent: "sent = requests_2_actions h m'"
    unfolding parse_requests_1_def
    by (auto simp: Let_def split: option.splits sum.splits prod.splits)
  have p1: "length own1 = length (ownFiles m)" "map path own1 = map path (ownFiles m)"
    "map file_text own1 = map file_text (ownFiles m)"
    "map original_file own1 = map original_file (ownFiles m)"
    using note_ids_loop_preserves [OF l1] by simp_all
  have p2: "length own2 = length own1" "map path own2 = map path own1"
    "map file_text own2 = map file_text own1"
    "map original_file own2 = map original_file own1"
    using card_ids_loop_preserves [OF l2] by simp_all
  have pm: "map path own2 = map path (ownFiles m)" using p1 p2 by simp
  have idx: "\<forall>j < length own2. js_index (files m) (0 + j) = Some (path (own2 ! j))"
  proof (intro allI impI)
    fix j assume j: "j < length own2"
    have "path (own2 ! j) = path (ownFiles m ! j)" using pm j by (rule map_eq_nth)
    then show "js_index (files m) (0 + j) = Some (path (own2 ! j))"
      using fs j p1 p2 by (simp add: js_index_def)
  qed
  have wb: "own3 = map (rewritten h tag_list) own2"
    "writes = map (\<lambda>f. (path f, file_text f))
       (filter (\<lambda>f. file_text f \<noteq> original_file f) (map (rewritten h tag_list) own2))"
    using write_back_loop_result [OF idx, of h tag_list "[]" "[]"] l3 by simp_all
  show ?thesis
    using p1 p2 wb m' v' sent
    by (intro exI [of _ own2] exI [of _ tag_list]) simp
qed

text \<open>
  C7 (per-record create-error isolation). Let the create response hold one array for
  each document at most, let \<open>rs\<close> be the array of document \<open>k\<close>, and let its
  element \<open>i\<close> carry the error \<open>e\<close> (as the transport's contract has it, with no
  result). Then the loop of \<open>parse_requests_1\<close> over the create responses does not
  fail: the error is caught and logged with the index of the record and the path of
  the document, record \<open>i\<close> of document \<open>k\<close> is left without an identifier
  (\<open>note_ids[i]\<close> is \<open>null\<close>, the value \<open>writeIDs\<close> reads), and every document of
  the batch gets, record by record, the results of its own responses, its path and
  text as they were.
\<close>

theorem create_error_isolation:
  assumes "length frs \<le> length own"
      and "k < length frs" and "result (frs ! k) = Some rs"
      and "i < length rs" and "error (rs ! i) = Some e" and "well_formed (rs ! i)"
  shows "\<exists>own' lg'. note_ids_loop 0 frs own lg = Inr (own', lg') \<and>
           length own' = length own \<and>
           length (note_ids (own' ! k)) = length rs \<and>
           note_ids (own' ! k) ! i = None \<and>
           FailedToAddNote i (path (own ! k)) e \<in> set lg' \<and>
           (\<forall>k' < length frs.
              note_ids (own' ! k') = map result (for_in (result (frs ! k')))) \<and>
           map path own' = map path own \<and>
           map file_text own' = map file_text own"
proof -
  have le: "0 + length frs \<le> length own" using assms(1) by simp
  obtain own' lg' where
    run: "note_ids_loop 0 frs own lg = Inr (own', lg')" and
    len: "length own' = length own" and
    pth: "map path own' = map path own" and
    ftx: "map file_text own' = map file_text own" and
    ids: "\<forall>k < length frs. note_ids (own' ! (0 + k)) = map result (for_in (result (frs ! k)))" and
    logd: "\<forall>k < length frs. \<forall>j < length (for_in (result (frs ! k))). \<forall>e.
        error (for_in (result (frs ! k)) ! j) = Some e \<longrightarrow>
        FailedToAddNote j (path (own ! (0 + k))) e \<in> set lg'"
    using note_ids_loop_result [OF le, of lg] by blast
  have rs: "for_in (result (frs ! k)) = rs" using assms(3) by (simp add: for_in_def)
  have idk: "note_ids (own' ! k) = map result rs" using ids assms(2) rs by simp
  have none: "result (rs ! i) = None" using assms(5,6) by (simp add: well_formed_def)
  have lg: "FailedToAddNote i (path (own ! k)) e \<in> set lg'"
    using logd assms(2,4,5) rs by simp
  show ?thesis
    using run len pth ftx ids idk none lg assms(4)
    by (intro exI [of _ own'] exI [of _ lg']) simp
qed

theorem create_error_isolation_witness:
  "\<exists>own' lg'.
     note_ids_loop 0
       [\<lparr>result = Some [\<lparr>result = Some 7, error = None\<rparr>,
                        \<lparr>result = None, error = Some ''duplicate''\<rparr>,
                        \<lparr>result = Some 9, error = None\<rparr>],
         error = None\<rparr>,
        \<lparr>result = Some [\<lparr>result = Some 11, error = None\<rparr>], error = None\<rparr>]
       [new_AllFile example_host ''Q'' ''a.md'', new_AllFile example_host ''R'' ''b.md''] []
       = Inr (own', lg') \<and>
     note_ids (own' ! 0) = [Some 7, None, Some 9] \<and>
     note_ids (own' ! 1) = [Some 11] \<and>
     FailedToAddNote 1 ''a.md'' ''duplicate'' \<in> set lg'"
  using create_error_isolation
    [of "[\<lparr>result = Some [\<lparr>result = Some 7, error = None\<rparr>,
                        \<lparr>result = None, error = Some ''duplicate''\<rparr>,
                        \<lparr>result = Some 9, error = None\<rparr>],
         error = None\<rparr>,
        \<lparr>result = Some [\<lparr>result = Some 11, error = None\<rparr>], error = None\<rparr>]"
       "[new_AllFile example_host ''Q'' ''a.md'', new_AllFile example_host ''R'' ''b.md'']"
       0 "[\<lparr>result = Some 7, error = None\<rparr>,
                        \<lparr>result = None, error = Some ''duplicate''\<rparr>,
                        \<lparr>result = Some 9, error = None\<rparr>]" 1 "''duplicate''" "[]"]
  by (auto simp: well_formed_def for_in_def new_AllFile_def less_Suc_eq)

subsection \<open>Writing the documents back\<close>

lemma apply_edits_replacements:
  "apply_edits at t es = interleave (outside at t es) (map (\<lambda>(start, len, repl). repl) es)"
  by (induction at t es rule: apply_edits.induct) simp_all

lemma text_from_pieces:
  "spans_ok at (at + length t) es \<Longrightarrow> t = interleave (outside at t es) (touched at t es)"
proof (induction at t es rule: apply_edits.induct)
  case (1 at t)
  then show ?case by simp
next
  case (2 at t start len repl es)
  let ?rest = "drop (start + len - at) t"
  have b: "at \<le> start" "start + len \<le> at + length t"
    and ok: "spans_ok (start + len) (at + length t) es"
    using "2.prems" by simp_all
  have n: "start + len + length ?rest = at + length t" using b by simp
  have rest: "?rest = interleave (outside (start + len) ?rest es) (touched (start + len) ?rest es)"
    using ok n by (intro "2.IH") (simp add: add.commute)
  have "start + len - at = (start - at) + len" using b by simp
  then have "?rest = drop len (drop (start - at) t)" by (simp add: add.commute)
  then have split: "t = take (start - at) t @ take len (drop (start - at) t) @ ?rest"
    by (metis append_take_drop_id)
  show ?case using split rest by simp
qed

lemma preserved_outside_apply_edits:
  "spans_ok 0 (length t) es \<Longrightarrow> preserved_outside t es (apply_edits 0 t es)"
  using text_from_pieces [of 0 t es] apply_edits_replacements [of 0 t es]
  by (simp add: preserved_outside_def)


lemma rewritten_outside:
  "(spans_ok 0 (length (file_text d)) (writeIDs h (d\<lparr>tags := tgs\<rparr>)) \<longrightarrow>
      preserved_outside (file_text d) (writeIDs h (d\<lparr>tags := tgs\<rparr>))
        (file_text (AllFile_writeIDs h (d\<lparr>tags := tgs\<rparr>)))) \<and>
   (spans_ok 0 (length (file_text (AllFile_writeIDs h (d\<lparr>tags := tgs\<rparr>))))
        (removeEmpties h (AllFile_writeIDs h (d\<lparr>tags := tgs\<rparr>))) \<longrightarrow>
      preserved_outside (file_text (AllFile_writeIDs h (d\<lparr>tags := tgs\<rparr>)))
        (removeEmpties h (AllFile_writeIDs h (d\<lparr>tags := tgs\<rparr>)))
        (file_text (rewritten h tgs d))) \<and>
   (writeIDs h (d\<lparr>tags := tgs\<rparr>) = [] \<and>
    removeEmpties h (AllFile_writeIDs h (d\<lparr>tags := tgs\<rparr>)) = [] \<longrightarrow>
      file_text (rewritten h tgs d) = file_text d)"
  using preserved_outside_apply_edits
  by (auto simp: rewritten_def AllFile_writeIDs_def AllFile_removeEmpties_def)

lemma writes_of_distinct:
  assumes d: "distinct (map path own)"
  defines "ws \<equiv> map (\<lambda>f. (path f, file_text f)) (filter (\<lambda>f. file_text f \<noteq> original_file f) own)"
  shows "distinct (map fst ws)"
    and "\<forall>f \<in> set own. ((path f, file_text f) \<in> set ws) = (file_text f \<noteq> original_file f)"
    and "\<forall>f \<in> set own. file_text f = original_file f \<longrightarrow> path f \<notin> fst ` set ws"
    and "fst ` set ws \<subseteq> path ` set own"
proof -
  have inj: "inj_on path (set own)" using d by (simp add: distinct_map)
  show "distinct (map fst ws)"
    using d by (simp add: ws_def o_def distinct_map_filter)
  show "\<forall>f \<in> set own. ((path f, file_text f) \<in> set ws) = (file_text f \<noteq> original_file f)"
    using inj by (auto simp: ws_def dest: inj_onD)
  show "\<forall>f \<in> set own. file_text f = original_file f \<longrightarrow> path f \<notin> fst ` set ws"
    using inj by (auto simp: ws_def dest: inj_onD)
  show "fst ` set ws \<subseteq> path ` set own"
    by (auto simp: ws_def)
qed

text \<open>
  C8 (write-back frame condition). Let \<open>parse_requests_1\<close> return, on a manager
  whose vault files are those of its documents (as \<open>initialiseFiles\<close> leaves them)
  and whose documents have distinct paths. Then a processed document is written back
  to the vault, under its own path and with its rewritten text, if and only if its
  rewritten text differs from its original text; a document whose rewritten text is
  its original text is not written; the vault then holds the rewritten text of every
  written document and, for every other path, the text it held before. The rewritten
  text comes from the text read in two steps (\<open>writeIDs\<close>, \<open>removeEmpties\<close>), each
  of which keeps the pieces of the text outside the spans it touches, byte for byte
  and in order; with no span touched the text is unchanged.
\<close>

theorem write_back_frame:
  assumes run: "parse_requests_1 h response m v = Inr (m', v', writes, sent, lg)"
      and fs: "files m = map (\<lambda>f. Some (path f)) (ownFiles m)"
      and dist: "distinct (map path (ownFiles m))"
  shows "map path (ownFiles m') = map path (ownFiles m) \<and>
         map original_file (ownFiles m') = map original_file (ownFiles m) \<and>
         v' = apply_writes v writes \<and>
         (\<forall>f \<in> set (ownFiles m').
            ((path f, file_text f) \<in> set writes) = (file_text f \<noteq> original_file f)) \<and>
         (\<forall>f \<in> set (ownFiles m').
            file_text f = original_file f \<longrightarrow> path f \<notin> fst ` set writes) \<and>
         (\<forall>f \<in> set (ownFiles m').
            contents v' (path f) =
              (if file_text f \<noteq> original_file f then file_text f else contents v (path f))) \<and>
         (\<forall>p. p \<notin> path ` set (ownFiles m) \<longrightarrow> contents v' p = contents v p) \<and>
         (\<exists>own2 tag_list.
            map path own2 = map path (ownFiles m) \<and>
            map file_text own2 = map file_text (ownFiles m) \<and>
            ownFiles m' = map (rewritten h tag_list) own2 \<and>
            (\<forall>d \<in> set own2.
               (spans_ok 0 (length (file_text d)) (writeIDs h (d\<lparr>tags := tag_list\<rparr>)) \<longrightarrow>
                  preserved_outside (file_text d) (writeIDs h (d\<lparr>tags := tag_list\<rparr>))
                    (file_text (AllFile_writeIDs h (d\<lparr>tags := tag_list\<rparr>)))) \<and>
               (spans_ok 0 (length (file_text (AllFile_writeIDs h (d\<lparr>tags := tag_list\<rparr>))))
                    (removeEmpties h (AllFile_writeIDs h (d\<lparr>tags := tag_list\<rparr>))) \<longrightarrow>
                  preserved_outside (file_text (AllFile_writeIDs h (d\<lparr>tags := tag_list\<rparr>)))
                    (removeEmpties h (AllFile_writeIDs h (d\<lparr>tags := tag_list\<rparr>)))
                    (file_text (rewritten h tag_list d))) \<and>
               (writeIDs h (d\<lparr>tags := tag_list\<rparr>) = [] \<and>
                removeEmpties h (AllFile_writeIDs h (d\<lparr>tags := tag_list\<rparr>)) = [] \<longrightarrow>
                  file_text (rewritten h tag_list d) = file_text d)))"
proof -
  obtain own2 tag_list where
    pth2: "map path own2 = map path (ownFiles m)" and
    ftx2: "map file_text own2 = map file_text (ownFiles m)" and
    org2: "map original_file own2 = map original_file (ownFiles m)" and
    own': "ownFiles m' = map (rewritten h tag_list) own2" and
    ws: "writes = map (\<lambda>f. (path f, file_text f))
                      (filter (\<lambda>f. file_text f \<noteq> original_file f) (ownFiles m'))" and
    v': "v' = apply_writes v writes"
    using parse_requests_1_result [OF run fs] by (elim exE conjE) (rule that; assumption)
  have pth: "map path (ownFiles m') = map path (ownFiles m)"
    using own' pth2 by (simp add: o_def)
  have org: "map original_file (ownFiles m') = map original_file (ownFiles m)"
    using own' org2 by (simp add: o_def)
  have dist': "distinct (map path (ownFiles m'))" using dist pth by simp
  note w = writes_of_distinct [OF dist', folded ws]
  have sub: "fst ` set writes \<subseteq> path ` set (ownFiles m)"
  proof -
    have "path ` set (ownFiles m') = path ` set (ownFiles m)"
      using pth by (metis set_map)
    then show ?thesis using w(4) by simp
  qed
  have cont: "\<forall>f \<in> set (ownFiles m').
      contents v' (path f) =
        (if file_text f \<noteq> original_file f then file_text f else contents v (path f))"
  proof
    fix f assume f: "f \<in> set (ownFiles m')"
    show "contents v' (path f) =
        (if file_text f \<noteq> original_file f then file_text f else contents v (path f))"
    proof (cases "file_text f \<noteq> original_file f")
      case True
      then have "(path f, file_text f) \<in> set writes" using w(2) f by simp
      then show ?thesis using True v' apply_writes_written [OF w(1)] by simp
    next
      case False
      then have "path f \<notin> fst ` set writes" using w(3) f by simp
      then show ?thesis using False v' apply_writes_other by simp
    qed
  qed
  have other: "\<forall>p. p \<notin> path ` set (ownFiles m) \<longrightarrow> contents v' p = contents v p"
  proof (intro allI impI)
    fix p assume "p \<notin> path ` set (ownFiles m)"
    then have "p \<notin> fst ` set writes" using sub by auto
    then show "contents v' p = contents v p" unfolding v' by (rule apply_writes_other)
  qed
  have spans: "\<forall>d \<in> set own2.
               (spans_ok 0 (length (file_text d)) (writeIDs h (d\<lparr>tags := tag_list\<rparr>)) \<longrightarrow>
                  preserved_outside (file_text d) (writeIDs h (d\<lparr>tags := tag_list\<rparr>))
                    (file_text (AllFile_writeIDs h (d\<lparr>tags := tag_list\<rparr>)))) \<and>
               (spans_ok 0 (length (file_text (AllFile_writeIDs h (d\<lparr>tags := tag_list\<rparr>))))
                    (removeEmpties h (AllFile_writeIDs h (d\<lparr>tags := tag_list\<rparr>))) \<longrightarrow>
                  preserved_outside (file_text (AllFile_writeIDs h (d\<lparr>tags := tag_list\<rparr>)))
                    (removeEmpties h (AllFile_writeIDs h (d\<lparr>tags := tag_list\<rparr>)))
                    (file_text (rewritten h tag_list d))) \<and>
               (writeIDs h (d\<lparr>tags := tag_list\<rparr>) = [] \<and>
                removeEmpties h (AllFile_writeIDs h (d\<lparr>tags := tag_list\<rparr>)) = [] \<longrightarrow>
                  file_text (rewritten h tag_list d) = file_text d)"
  proof
    fix d assume "d \<in> set own2"
    show "(spans_ok 0 (length (file_text d)) (writeIDs h (d\<lparr>tags := tag_list\<rparr>)) \<longrightarrow>
                  preserved_outside (file_text d) (writeIDs h (d\<lparr>tags := tag_list\<rparr>))
                    (file_text (AllFile_writeIDs h (d\<lparr>tags := tag_list\<rparr>)))) \<and>
               (spans_ok 0 (length (file_text (AllFile_writeIDs h (d\<lparr>tags := tag_list\<rparr>))))
                    (removeEmpties h (AllFile_writeIDs h (d\<lparr>tags := tag_list\<rparr>))) \<longrightarrow>
                  preserved_outside (file_text (AllFile_writeIDs h (d\<lparr>tags := tag_list\<rparr>)))
                    (removeEmpties h (AllFile_writeIDs h (d\<lparr>tags := tag_list\<rparr>)))
                    (file_text (rewritten h tag_list d))) \<and>
               (writeIDs h (d\<lparr>tags := tag_list\<rparr>) = [] \<and>
                removeEmpties h (AllFile_writeIDs h (d\<lparr>tags := tag_list\<rparr>)) = [] \<longrightarrow>
                  file_text (rewritten h tag_list d) = file_text d)"
      by (rule rewritten_outside)
  qed
  have ex: "\<exists>own2 tag_list.
            map path own2 = map path (ownFiles m) \<and>
            map file_text own2 = map file_text (ownFiles m) \<and>
            ownFiles m' = map (rewritten h tag_list) own2 \<and>
            (\<forall>d \<in> set own2.
               (spans_ok 0 (length (file_text d)) (writeIDs h (d\<lparr>tags := tag_list\<rparr>)) \<longrightarrow>
                  preserved_outside (file_text d) (writeIDs h (d\<lparr>tags := tag_list\<rparr>))
                    (file_text (AllFile_writeIDs h (d\<lparr>tags := tag_list\<rparr>)))) \<and>
               (spans_ok 0 (length (file_text (AllFile_writeIDs h (d\<lparr>tags := tag_list\<rparr>))))
                    (removeEmpties h (AllFile_writeIDs h (d\<lparr>tags := tag_list\<rparr>))) \<longrightarrow>
                  preserved_outside (file_text (AllFile_writeIDs h (d\<lparr>tags := tag_list\<rparr>)))
                    (removeEmpties h (AllFile_writeIDs h (d\<lparr>tags := tag_list\<rparr>)))
                    (file_text (rewritten h tag_list d))) \<and>
               (writeIDs h (d\<lparr>tags := tag_list\<rparr>) = [] \<and>
                removeEmpties h (AllFile_writeIDs h (d\<lparr>tags := tag_list\<rparr>)) = [] \<longrightarrow>
                  file_text (rewritten h tag_list d) = file_text d))"
    by (rule exI [of _ own2], rule exI [of _ tag_list]) (intro conjI pth2 ftx2 own' spans)
  show ?thesis
    by (intro conjI pth org v' w(2) w(3) cont other ex)
qed


theorem write_back_frame_witness:
  "\<exists>m' v' sent lg.
     parse_requests_1 example_writer example_response example_manager example_vault =
       Inr (m', v', [(''a.md'', ''QID'')], sent, lg) \<and>
     contents v' ''a.md'' = ''QID'' \<and> contents v' ''b.md'' = ''R''"
proof -
  have "\<exists>m' v' sent lg.
     parse_requests_1 example_writer example_response example_manager example_vault =
       Inr (m', v', [(''a.md'', ''QID'')], sent, lg)"
    by (simp add: parse_requests_1_def example_writer_def example_host_def
        example_response_def example_manager_def AnkiConnect_parse_def for_in_def
        new_AllFile_def rewritten_def AllFile_writeIDs_def AllFile_removeEmpties_def
        js_index_def Let_def)
  then obtain m' v' sent lg where
    run: "parse_requests_1 example_writer example_response example_manager example_vault =
       Inr (m', v', [(''a.md'', ''QID'')], sent, lg)"
    by blast
  have fs: "files example_manager = map (\<lambda>f. Some (path f)) (ownFiles example_manager)"
    by (simp add: example_manager_def new_AllFile_def)
  have d: "distinct (map path (ownFiles example_manager))"
    by (simp add: example_manager_def new_AllFile_def)
  have "v' = apply_writes example_vault [(''a.md'', ''QID'')]"
    using write_back_frame [OF run fs d] by (elim conjE)
  then have "contents v' ''a.md'' = ''QID'' \<and> contents v' ''b.md'' = ''R''"
    by (simp add: apply_writes_def modify_def example_vault_def)
  then show ?thesis using run by blast
qed

subsection \<open>A second pass\<close>

lemma requests_1_actions_manager:
  "requests_1_actions h m = (actions, m1) \<Longrightarrow>
   ownFiles m1 = ownFiles m \<and> files m1 = files m \<and> file_hashes m1 = file_hashes m"
  by (auto simp: requests_1_actions_def split: prod.splits)

lemma requests_1_actions_none:
  "ownFiles m = [] \<Longrightarrow>
   fst (requests_1_actions h m) = [multi [], multi [], getTags, multi [], multi [], multi []]"
  by (simp add: requests_1_actions_def)


lemma write_back_frame_facts:
  assumes run: "parse_requests_1 h response m v = Inr (m', v', writes, sent, lg)"
      and fs: "files m = map (\<lambda>f. Some (path f)) (ownFiles m)"
      and dist: "distinct (map path (ownFiles m))"
  shows "map path (ownFiles m') = map path (ownFiles m)"
    and "map original_file (ownFiles m') = map original_file (ownFiles m)"
    and "v' = apply_writes v writes"
    and "\<forall>f \<in> set (ownFiles m').
            contents v' (path f) =
              (if file_text f \<noteq> original_file f then file_text f else contents v (path f))"
    and "\<forall>p. p \<notin> path ` set (ownFiles m) \<longrightarrow> contents v' p = contents v p"
    and "sent = requests_2_actions h m'"
    and "m' = m\<lparr>ownFiles := ownFiles m'\<rparr>"
proof -
  obtain own2 tag_list where
    pth2: "map path own2 = map path (ownFiles m)" and
    org2: "map original_file own2 = map original_file (ownFiles m)" and
    own': "ownFiles m' = map (rewritten h tag_list) own2" and
    ws: "writes = map (\<lambda>f. (path f, file_text f))
                      (filter (\<lambda>f. file_text f \<noteq> original_file f) (ownFiles m'))" and
    v': "v' = apply_writes v writes" and
    sent: "sent = requests_2_actions h m'" and
    m': "m' = m\<lparr>ownFiles := ownFiles m'\<rparr>"
    using parse_requests_1_result [OF run fs] by (elim exE conjE) (rule that; assumption)
  show pth: "map path (ownFiles m') = map path (ownFiles m)"
    using own' pth2 by (simp add: o_def)
  show "map original_file (ownFiles m') = map original_file (ownFiles m)"
    using own' org2 by (simp add: o_def)
  show "v' = apply_writes v writes" by (rule v')
  show "sent = requests_2_actions h m'" by (rule sent)
  show "m' = m\<lparr>ownFiles := ownFiles m'\<rparr>" by (rule m')
  have dist': "distinct (map path (ownFiles m'))" using dist pth by simp
  note w = writes_of_distinct [OF dist', folded ws]
  have sub: "fst ` set writes \<subseteq> path ` set (ownFiles m)"
  proof -
    have "path ` set (ownFiles m') = path ` set (ownFiles m)"
      using pth by (metis set_map)
    then show ?thesis using w(4) by simp
  qed
  show "\<forall>f \<in> set (ownFiles m').
      contents v' (path f) =
        (if file_text f \<noteq> original_file f then file_text f else contents v (path f))"
  proof
    fix f assume f: "f \<in> set (ownFiles m')"
    show "contents v' (path f) =
        (if file_text f \<noteq> original_file f then file_text f else contents v (path f))"
    proof (cases "file_text f \<noteq> original_file f")
      case True
      then have "(path f, file_text f) \<in> set writes" using w(2) f by simp
      then show ?thesis using True v' apply_writes_written [OF w(1)] by simp
    next
      case False
      then have "path f \<notin> fst ` set writes" using w(3) f by simp
      then show ?thesis using False v' apply_writes_other by simp
    qed
  qed
  show "\<forall>p. p \<notin> path ` set (ownFiles m) \<longrightarrow> contents v' p = contents v p"
  proof (intro allI impI)
    fix p assume "p \<notin> path ` set (ownFiles m)"
    then have "p \<notin> fst ` set writes" using sub by auto
    then show "contents v' p = contents v p" unfolding v' by (rule apply_writes_other)
  qed
qed

text \<open>After a completed pass no document of the vault is changed or new.\<close>

lemma pass_leaves_nothing_to_scan:
  assumes dist: "distinct (getMarkdownFiles v)"
      and pass: "scanVault h rem pl v = Inr (pl', v', sent)"
  shows "getMarkdownFiles v' = getMarkdownFiles v"
    and "\<forall>p \<in> set (getMarkdownFiles v). \<not> shouldScan h (plugin_file_hashes pl') p (contents v' p)"
proof -
  let ?fs = "getMarkdownFiles v"
  let ?hs = "plugin_file_hashes pl"
  let ?P = "\<lambda>p. shouldScan h ?hs p (contents v p)"
  let ?sel = "filter ?P ?fs"
  let ?m = "\<lparr>files = map Some ?sel,
          ownFiles = map (\<lambda>p. (new_AllFile h (contents v p) p)
                                 \<lparr>scan := scanFile h (new_AllFile h (contents v p) p)\<rparr>) ?sel,
          file_hashes = ?hs, added_media_set = new_Set (added_media pl)\<rparr>"
  have init: "initialiseFiles h v (FileManager_new ?fs ?hs (added_media pl)) = Inr ?m"
    by (rule initialiseFiles_new)
  from pass init obtain m3 writes lg where
    r1: "requests_1 h rem ?m v = Inr (m3, v', writes, sent, lg)" and
    pl': "pl' = \<lparr>plugin_file_hashes = ?hs ++ getHashes h m3, added_media = added_media_set m3\<rparr>"
    unfolding scanVault_def
    by (auto split: if_splits sum.splits prod.splits)
  from r1 obtain actions m1 reqs where
    a: "requests_1_actions h ?m = (actions, m1)" and
    p: "parse_requests_1 h (invoke_multi rem actions) m1 v = Inr (m3, v', writes, reqs, lg)"
    unfolding requests_1_def
    by (auto split: sum.splits prod.splits)
  have m1: "ownFiles m1 = ownFiles ?m" "files m1 = files ?m"
    using requests_1_actions_manager [OF a] by simp_all
  have own_paths: "map path (ownFiles m1) = ?sel"
    using m1 by (simp add: o_def new_AllFile_def)
  have own_orig: "map original_file (ownFiles m1) = map (contents v) ?sel"
    using m1 by (simp add: o_def new_AllFile_def)
  have fs1: "files m1 = map (\<lambda>f. Some (path f)) (ownFiles m1)"
    using m1 by (simp add: o_def new_AllFile_def)
  have d1: "distinct (map path (ownFiles m1))"
    using own_paths dist by simp
  note wb = write_back_frame_facts [OF p fs1 d1]
  show "getMarkdownFiles v' = getMarkdownFiles v" using wb(3) by simp
  have pth3: "map path (ownFiles m3) = ?sel" using wb(1) own_paths by simp
  have org3: "map original_file (ownFiles m3) = map (contents v) ?sel"
    using wb(2) own_orig by simp
  have d3: "distinct (map path (ownFiles m3))" using pth3 dist by simp
  have orig: "original_file f = contents v (path f)" if "f \<in> set (ownFiles m3)" for f
  proof -
    from that obtain j where j: "j < length (ownFiles m3)" "ownFiles m3 ! j = f"
      by (auto simp: in_set_conv_nth)
    have "map original_file (ownFiles m3) = map (contents v) (map path (ownFiles m3))"
      by (simp only: org3 pth3)
    then have "map original_file (ownFiles m3) = map (\<lambda>f. contents v (path f)) (ownFiles m3)"
      by (simp add: o_def)
    from map_eq_nth [OF this j(1)] j(2) show ?thesis by simp
  qed
  have text3: "contents v' (path f) = file_text f" if "f \<in> set (ownFiles m3)" for f
    using wb(4) that orig [OF that] by auto
  have hash3: "(?hs ++ getHashes h m3) (path f) = Some (getHash h (file_text f))"
    if "f \<in> set (ownFiles m3)" for f
    using foldl_hashes_own [OF d3 that, of "\<lambda>f. getHash h (file_text f)" Map.empty]
    by (simp add: getHashes_def map_add_Some_iff)
  have "path ` set (ownFiles m3) = set (map path (ownFiles m3))" by simp
  then have paths3: "path ` set (ownFiles m3) = set ?sel" by (simp only: pth3)
  have "path ` set (ownFiles m1) = set (map path (ownFiles m1))" by simp
  then have paths1: "path ` set (ownFiles m1) = set ?sel" by (simp only: own_paths)
  show "\<forall>p \<in> set ?fs. \<not> shouldScan h (plugin_file_hashes pl') p (contents v' p)"
  proof
    fix p assume p: "p \<in> set ?fs"
    show "\<not> shouldScan h (plugin_file_hashes pl') p (contents v' p)"
    proof (cases "?P p")
      case True
      then have "p \<in> path ` set (ownFiles m3)" using p paths3 by simp
      then obtain f where f: "f \<in> set (ownFiles m3)" "p = path f" by blast
      show ?thesis
        using text3 [OF f(1)] hash3 [OF f(1)] f(2) pl' by (simp add: shouldScan_def)
    next
      case False
      then have notin: "p \<notin> path ` set (ownFiles m3)" using paths3 by simp
      then have "getHashes h m3 p = None"
        using foldl_hashes_other [OF notin, of "\<lambda>f. getHash h (file_text f)" Map.empty]
        by (simp add: getHashes_def)
      then have stored: "plugin_file_hashes pl' p = ?hs p"
        using pl' by (simp add: map_add_def)
      have "p \<notin> path ` set (ownFiles m1)" using paths1 False by simp
      then have "contents v' p = contents v p" using wb(5) by simp
      then show ?thesis using False stored by (simp add: shouldScan_def)
    qed
  qed
qed


lemma pass_without_documents:
  assumes own: "ownFiles m = []" and fs: "files m = []"
      and r1: "requests_1 h rem m v = Inr (m3, v2, writes, sent, lg)"
  shows "concat (map operations (concat sent)) = [getTags]"
    and "v2 = v" and "ownFiles m3 = []"
proof -
  from r1 obtain actions m1 reqs where
    a: "requests_1_actions h m = (actions, m1)" and
    p: "parse_requests_1 h (invoke_multi rem actions) m1 v = Inr (m3, v2, writes, reqs, lg)" and
    sent: "sent = [actions, reqs]"
    unfolding requests_1_def
    by (auto split: sum.splits prod.splits)
  have m1: "ownFiles m1 = []" "files m1 = []"
    using requests_1_actions_manager [OF a] own fs by simp_all
  have acts: "actions = [multi [], multi [], getTags, multi [], multi [], multi []]"
    using requests_1_actions_none [OF own, of h] a by simp
  have fs1: "files m1 = map (\<lambda>f. Some (path f)) (ownFiles m1)" using m1 by simp
  obtain own2 tag_list where
    len: "length own2 = length (ownFiles m1)" and
    own3: "ownFiles m3 = map (rewritten h tag_list) own2" and
    ws: "writes = map (\<lambda>f. (path f, file_text f))
                      (filter (\<lambda>f. file_text f \<noteq> original_file f) (ownFiles m3))" and
    v2: "v2 = apply_writes v writes" and
    reqs: "reqs = requests_2_actions h m3"
    using parse_requests_1_result [OF p fs1] by (elim exE conjE) (rule that; assumption)
  show none: "ownFiles m3 = []" using len own3 m1 by simp
  show "v2 = v" using v2 ws none by (simp add: apply_writes_def)
  show "concat (map operations (concat sent)) = [getTags]"
    using sent acts reqs none by (simp add: requests_2_actions_def)
qed

lemma pass_without_documents_returns:
  assumes own: "ownFiles m = []"
      and ok: "answers_empty_batches
                 (invoke_multi rem [multi [], multi [], getTags, multi [], multi [], multi []])"
  shows "\<exists>m3 v2 writes sent lg. requests_1 h rem m v = Inr (m3, v2, writes, sent, lg)"
  using own ok
  by (simp add: requests_1_def requests_1_actions_def parse_requests_1_def
      answers_empty_batches_def AnkiConnect_parse_def Let_def)

text \<open>
  C1 (idempotence of a full pass). Let a pass over a vault whose files are distinct
  complete; it records the fingerprints of the texts it leaves in the vault. On the
  vault and the sync state it leaves, \<open>initialiseFiles\<close> selects no document for
  scanning. The first batched call of a second pass then holds, besides the read of
  the remote tags, empty batches only (no create, note-info, update, delete or media
  operation), and its second batched call empty batches only (no deck or tag
  operation). A second pass that returns, whatever the remote store answers, has
  asked for no operation but the read of the tags, and leaves the vault and the
  fingerprints as they were. And it does return when the remote store is connected
  and answers the empty batches with no result.
\<close>

theorem second_pass_idempotent:
  assumes dist: "distinct (getMarkdownFiles v)"
      and pass: "scanVault h rem pl v = Inr (pl', v', sent)"
  shows "(\<exists>m2. initialiseFiles h v'
                 (FileManager_new (getMarkdownFiles v') (plugin_file_hashes pl') (added_media pl'))
               = Inr m2 \<and>
              ownFiles m2 = [] \<and> files m2 = [] \<and>
              fst (requests_1_actions h m2) =
                [multi [], multi [], getTags, multi [], multi [], multi []] \<and>
              requests_2_actions h m2 = [multi [], multi [], multi []]) \<and>
         (\<forall>rem2 pl2 v2 sent2.
            scanVault h rem2 pl' v' = Inr (pl2, v2, sent2) \<longrightarrow>
              concat (map operations (concat sent2)) = [getTags] \<and> v2 = v' \<and>
              plugin_file_hashes pl2 = plugin_file_hashes pl') \<and>
         (\<forall>rem2.
            connected rem2 \<and>
            answers_empty_batches
              (invoke_multi rem2 [multi [], multi [], getTags, multi [], multi [], multi []]) \<longrightarrow>
              (\<exists>pl2 v2 sent2. scanVault h rem2 pl' v' = Inr (pl2, v2, sent2)))"
proof -
  let ?fs = "getMarkdownFiles v'"
  let ?hs = "plugin_file_hashes pl'"
  let ?m2 = "\<lparr>files = map Some (filter (\<lambda>p. shouldScan h ?hs p (contents v' p)) ?fs),
          ownFiles = map (\<lambda>p. (new_AllFile h (contents v' p) p)
                                 \<lparr>scan := scanFile h (new_AllFile h (contents v' p) p)\<rparr>)
                       (filter (\<lambda>p. shouldScan h ?hs p (contents v' p)) ?fs),
          file_hashes = ?hs, added_media_set = new_Set (added_media pl')\<rparr>"
  have same: "?fs = getMarkdownFiles v"
    and none: "\<forall>p \<in> set (getMarkdownFiles v). \<not> shouldScan h ?hs p (contents v' p)"
    using pass_leaves_nothing_to_scan [OF dist pass] by simp_all
  have sel: "filter (\<lambda>p. shouldScan h ?hs p (contents v' p)) ?fs = []"
    using none same by (simp add: filter_empty_conv)
  have init: "initialiseFiles h v' (FileManager_new ?fs ?hs (added_media pl')) = Inr ?m2"
    by (rule initialiseFiles_new)
  have own2: "ownFiles ?m2 = []" and files2: "files ?m2 = []"
    using sel by simp_all
  have first: "\<exists>m2. initialiseFiles h v' (FileManager_new ?fs ?hs (added_media pl')) = Inr m2 \<and>
              ownFiles m2 = [] \<and> files m2 = [] \<and>
              fst (requests_1_actions h m2) =
                [multi [], multi [], getTags, multi [], multi [], multi []] \<and>
              requests_2_actions h m2 = [multi [], multi [], multi []]"
    using init own2 files2 requests_1_actions_none [OF own2, of h]
    by (intro exI [of _ ?m2]) (simp add: requests_2_actions_def)
  have second: "\<forall>rem2 pl2 v2 sent2.
            scanVault h rem2 pl' v' = Inr (pl2, v2, sent2) \<longrightarrow>
              concat (map operations (concat sent2)) = [getTags] \<and> v2 = v' \<and>
              plugin_file_hashes pl2 = plugin_file_hashes pl'"
  proof (intro allI impI)
    fix rem2 pl2 v2 sent2
    assume again: "scanVault h rem2 pl' v' = Inr (pl2, v2, sent2)"
    from again init obtain m3 writes lg where
      r1: "requests_1 h rem2 ?m2 v' = Inr (m3, v2, writes, sent2, lg)" and
      pl2: "pl2 = \<lparr>plugin_file_hashes = ?hs ++ getHashes h m3, added_media = added_media_set m3\<rparr>"
      unfolding scanVault_def
      by (auto split: if_splits sum.splits prod.splits)
    note n = pass_without_documents [OF own2 files2 r1]
    have "getHashes h m3 = Map.empty" using n(3) by (simp add: getHashes_def)
    then have "plugin_file_hashes pl2 = ?hs" using pl2 by simp
    then show "concat (map operations (concat sent2)) = [getTags] \<and> v2 = v' \<and>
              plugin_file_hashes pl2 = plugin_file_hashes pl'"
      using n(1) n(2) by simp
  qed
  have third: "\<exists>pl2 v2 sent2. scanVault h rem2 pl' v' = Inr (pl2, v2, sent2)"
    if a: "connected rem2 \<and>
            answers_empty_batches
              (invoke_multi rem2 [multi [], multi [], getTags, multi [], multi [], multi []])"
    for rem2
  proof -
    obtain m3 v2 writes sent2 lg where
      r1: "requests_1 h rem2 ?m2 v' = Inr (m3, v2, writes, sent2, lg)"
      using pass_without_documents_returns [OF own2, of rem2 h v'] a by blast
    show ?thesis
      unfolding scanVault_def using a init r1 by simp
  qed
  show ?thesis using first second third by blast
qed

theorem second_pass_idempotent_witness:
  "\<exists>pl' v' sent.
     scanVault example_writer example_remote example_plugin example_vault = Inr (pl', v', sent) \<and>
     plugin_file_hashes pl' ''a.md'' = Some ''QID'' \<and>
     contents v' ''a.md'' = ''QID'' \<and>
     (\<exists>m2. initialiseFiles example_writer v'
             (FileManager_new (getMarkdownFiles v') (plugin_file_hashes pl') (added_media pl'))
           = Inr m2 \<and>
          ownFiles m2 = [] \<and>
          fst (requests_1_actions example_writer m2) =
            [multi [], multi [], getTags, multi [], multi [], multi []]) \<and>
     (\<exists>pl2 sent2.
        scanVault example_writer example_idle_remote pl' v' = Inr (pl2, v', sent2) \<and>
        concat (map operations (concat sent2)) = [getTags] \<and>
        plugin_file_hashes pl2 = plugin_file_hashes pl')"
proof -
  have "\<exists>pl' v' sent.
     scanVault example_writer example_remote example_plugin example_vault = Inr (pl', v', sent) \<and>
     plugin_file_hashes pl' ''a.md'' = Some ''QID'' \<and> contents v' ''a.md'' = ''QID''"
    by (simp add: scanVault_def initialiseFiles_new shouldScan_def requests_1_def
        requests_1_actions_def parse_requests_1_def example_writer_def example_host_def
        example_response_def example_remote_def example_plugin_def example_vault_def
        AnkiConnect_parse_def for_in_def new_AllFile_def rewritten_def AllFile_writeIDs_def
        AllFile_removeEmpties_def js_index_def Let_def getHashes_def apply_writes_def
        modify_def difference_def)
  then obtain pl' v' sent where
    run: "scanVault example_writer example_remote example_plugin example_vault
            = Inr (pl', v', sent)" and
    h: "plugin_file_hashes pl' ''a.md'' = Some ''QID''" and
    c: "contents v' ''a.md'' = ''QID''"
    by blast
  have d: "distinct (getMarkdownFiles example_vault)"
    by (simp add: example_vault_def)
  have idle: "connected example_idle_remote \<and>
      answers_empty_batches
        (invoke_multi example_idle_remote
           [multi [], multi [], getTags, multi [], multi [], multi []])"
    by (simp add: example_idle_remote_def answers_empty_batches_def for_in_def)
  note t = second_pass_idempotent [OF d run]
  have one: "\<exists>m2. initialiseFiles example_writer v'
             (FileManager_new (getMarkdownFiles v') (plugin_file_hashes pl') (added_media pl'))
           = Inr m2 \<and>
          ownFiles m2 = [] \<and>
          fst (requests_1_actions example_writer m2) =
            [multi [], multi [], getTags, multi [], multi [], multi []]"
    using t by blast
  obtain pl2 v2 sent2 where
    again: "scanVault example_writer example_idle_remote pl' v' = Inr (pl2, v2, sent2)"
    using t idle by blast
  have "concat (map operations (concat sent2)) = [getTags] \<and> v2 = v' \<and>
        plugin_file_hashes pl2 = plugin_file_hashes pl'"
    using t again by blast
  then have two: "\<exists>pl2 sent2.
        scanVault example_writer example_idle_remote pl' v' = Inr (pl2, v', sent2) \<and>
        concat (map operations (concat sent2)) = [getTags] \<and>
        plugin_file_hashes pl2 = plugin_file_hashes pl'"
    using again by blast
  show ?thesis using run h c one two by blast
qed

section \<open>Properties of the note parsers\<close>

subsection \<open>Numbers\<close>

declare excess.simps [simp del]

lemma digit_value_digit: "is_digit c \<Longrightarrow> digit_value c \<le> 9"
  by (auto simp: is_digit_def digit_value_def)

lemma decimal_snoc: "decimal (ds @ [c]) = 10 * decimal ds + digit_value c"
  by (simp add: decimal_def)

lemma decimal_bound:
  "\<forall>c \<in> set ds. is_digit c \<Longrightarrow> decimal ds < 10 ^ length ds"
proof (induction ds rule: rev_induct)
  case Nil
  then show ?case by (simp add: decimal_def)
next
  case (snoc c ds)
  have "decimal ds < 10 ^ length ds" using snoc by simp
  moreover have "digit_value c \<le> 9" using snoc.prems by (simp add: digit_value_digit)
  ultimately show ?case by (simp add: decimal_snoc)
qed

text \<open>A double holds every natural number below \<open>2 ^ 53\<close> as it is.\<close>

lemma to_double_exact:
  assumes "n < 2 ^ 53"
  shows "to_double n = Id n"
proof -
  have e: "excess n = 0" using assms by (subst excess.simps) simp
  have "(2::nat) ^ 53 \<le> 2 ^ 1024" by (rule power_increasing) simp_all
  then have "\<not> 2 ^ 1024 \<le> n" using assms by linarith
  then show ?thesis by (simp add: to_double_def e)
qed

text \<open>Up to fifteen digits spell a number below \<open>2 ^ 53\<close>.\<close>

lemma parseInt_code [code]:
  "parseInt v =
     (case v of
        None \<Rightarrow> NaN
      | Some s \<Rightarrow>
          (let ds = takeWhile is_digit (dropWhile is_ws s)
           in if ds = [] then NaN
              else if length ds \<le> 15 then Id (decimal ds)
              else to_double (decimal ds)))"
proof -
  have exact: "to_double (decimal ds) = Id (decimal ds)"
    if "\<forall>c \<in> set ds. is_digit c" and "length ds \<le> 15" for ds
  proof -
    have "decimal ds < 10 ^ length ds" using that(1) by (rule decimal_bound)
    also have "(10::nat) ^ length ds \<le> 10 ^ 15"
      using that(2) by (intro power_increasing) simp_all
    also have "(10::nat) ^ 15 < 2 ^ 53" by simp
    finally show ?thesis by (rule to_double_exact)
  qed
  have digits: "\<forall>c \<in> set (takeWhile is_digit xs). is_digit c" for xs
    by (auto dest: set_takeWhileD)
  show ?thesis
    using exact digits by (simp add: parseInt_def Let_def split: option.splits)
qed

subsection \<open>Unknown note types and cloze validation\<close>

lemma AbstractNote_init_fields [simp]:
  "note_type (AbstractNote_init fd curly hl t ls ident tgs ntype) = ntype"
  "this_identifier (AbstractNote_init fd curly hl t ls ident tgs ntype) = ident"
  "this_tags (AbstractNote_init fd curly hl t ls ident tgs ntype) = tgs"
  "split_text (AbstractNote_init fd curly hl t ls ident tgs ntype) = ls"
  "this_text (AbstractNote_init fd curly hl t ls ident tgs ntype) = t"
  "field_names (AbstractNote_init fd curly hl t ls ident tgs ntype) = fd (js_string ntype)"
  "no_note_type (AbstractNote_init fd curly hl t ls ident tgs ntype) = (fd (js_string ntype) = None)"
  by (simp_all add: AbstractNote_init_def split: option.splits)

lemma Note_new_init:
  "Note_new note_text fd curly hl = Inr n \<Longrightarrow>
   \<exists>ls ident tgs. n = AbstractNote_init fd curly hl (trim note_text) ls ident tgs (Note_getNoteType ls)"
  by (auto simp: Note_new_def Let_def split: prod.splits sum.splits)

lemma InlineNote_new_init:
  "InlineNote_new note_text fd curly hl = Inr n \<Longrightarrow>
   \<exists>t ls ident tgs ntype. n = AbstractNote_init fd curly hl t ls ident tgs ntype"
  by (fastforce simp: InlineNote_new_def Let_def split: prod.splits sum.splits)

lemma parse_without_field_names:
  "field_names n = None \<Longrightarrow>
   Note_parse fc cs n deck url frozen data context = Inl TypeError \<and>
   InlineNote_parse fc cs n deck url frozen data context = Inl TypeError"
  by (simp add: Note_parse_def InlineNote_parse_def AbstractNote_parse_def
      Note_getFields_def InlineNote_getFields_def)

text \<open>
  C4 (unknown schema handling). The claim does not hold of the code. For a block or
  an inline note whose note type is not a key of the fields dictionary the
  constructor sets \<open>no_note_type\<close> and leaves \<open>field_names\<close> undefined; \<open>parse\<close>
  then ends in a \<open>TypeError\<close>: the \<open>console.log\<close> of lines 96 to 102 calls
  \<open>getFields\<close>, which iterates \<open>field_names\<close>, before line 104 can return the
  note with \<open>NOTE_TYPE_ERROR\<close>. No record is flagged.
\<close>

theorem unknown_schema_throws:
  "(Note_new note_text fields_dict curly hl = Inr n \<and>
    fields_dict (js_string (note_type n)) = None \<longrightarrow>
      no_note_type n \<and>
      Note_parse fc cs n deck url frozen data context = Inl TypeError) \<and>
   (InlineNote_new note_text fields_dict curly hl = Inr n \<and>
    fields_dict (js_string (note_type n)) = None \<longrightarrow>
      no_note_type n \<and>
      InlineNote_parse fc cs n deck url frozen data context = Inl TypeError)"
proof (intro conjI impI)
  assume a: "Note_new note_text fields_dict curly hl = Inr n \<and>
    fields_dict (js_string (note_type n)) = None"
  then obtain ls ident tgs where
    n: "n = AbstractNote_init fields_dict curly hl (trim note_text) ls ident tgs (Note_getNoteType ls)"
    using Note_new_init by blast
  have "fields_dict (js_string (Note_getNoteType ls)) = None" using a n by simp
  then show "no_note_type n" and "Note_parse fc cs n deck url frozen data context = Inl TypeError"
    using n parse_without_field_names by simp_all
next
  assume a: "InlineNote_new note_text fields_dict curly hl = Inr n \<and>
    fields_dict (js_string (note_type n)) = None"
  then obtain t ls ident tgs ntype where
    n: "n = AbstractNote_init fields_dict curly hl t ls ident tgs ntype"
    using InlineNote_new_init by blast
  have "fields_dict (js_string ntype) = None" using a n by simp
  then show "no_note_type n" and "InlineNote_parse fc cs n deck url frozen data context = Inl TypeError"
    using n parse_without_field_names by simp_all
qed

lemma example_unknown_note:
  "Note_new ''Unknown\<newline>Front: Q'' example_fields_dict False False =
  Inr \<lparr>this_text = ''Unknown\<newline>Front: Q'', split_text = [''Unknown'', ''Front: Q''],
       current_field_num = 0, delete_flag = False, this_identifier = None, this_tags = [],
       note_type = Some ''Unknown'', field_names = None, current_field = None,
       curly_cloze = False, highlights_to_cloze = False, no_note_type = True\<rparr>"
  by code_simp

theorem unknown_schema_throws_witness:
  "\<exists>n. Note_new ''Unknown\<newline>Front: Q'' example_fields_dict False False = Inr n \<and>
       note_type n = Some ''Unknown'' \<and> example_fields_dict ''Unknown'' = None \<and>
       Note_parse example_formatter example_constants n ''Deck'' [] [] example_data []
         = Inl TypeError"
proof -
  let ?n = "\<lparr>this_text = ''Unknown\<newline>Front: Q'', split_text = [''Unknown'', ''Front: Q''],
       current_field_num = 0, delete_flag = False, this_identifier = None, this_tags = [],
       note_type = Some ''Unknown'', field_names = None, current_field = None,
       curly_cloze = False, highlights_to_cloze = False, no_note_type = True\<rparr>"
  have absent: "example_fields_dict ''Unknown'' = None"
    by (simp add: example_fields_dict_def)
  then have "example_fields_dict (js_string (note_type ?n)) = None"
    by (simp add: js_string_def)
  then have "Note_parse example_formatter example_constants ?n ''Deck'' [] [] example_data []
      = Inl TypeError"
    using unknown_schema_throws [of "''Unknown\<newline>Front: Q''" example_fields_dict False False
        ?n example_formatter example_constants "''Deck''" "[]" "[]" example_data "[]"]
      example_unknown_note
    by blast
  then show ?thesis
    using example_unknown_note absent by (intro exI [of _ ?n]) simp
qed

lemma AbstractNote_parse_cloze_validation:
  assumes "AbstractNote_parse gf fc cs n deck url frozen data context = Inr (note, ident)"
      and "modelName note = Some ''Cloze''" and "\<not> containsCloze cs note"
  shows "ident = Some (Id CLOZE_ERROR) \<or> ident = Some (Id NOTE_TYPE_ERROR)"
  using assms unfolding AbstractNote_parse_def
  by (auto simp: Let_def split: sum.splits prod.splits if_splits)

text \<open>
  C3 (cloze validation shared by the three parsers). The claim does not hold of
  \<open>RegexNote\<close>: \<open>RegexNote.parse\<close> returns the identifier the constructor read,
  whatever the fields hold, so one built without an identifier group returns none,
  and a \<open>Cloze\<close> note without cloze markup is not flagged with \<open>CLOZE_ERROR\<close>.
  (\<open>AbstractNote.parse\<close>, which block and inline notes share, does flag it:
  \<open>AbstractNote_parse_cloze_validation\<close>.)
\<close>

theorem regex_note_skips_cloze_validation:
  "RegexNote_new match note_type' fields_dict tags' False curly hl = Inr r \<and>
   RegexNote_parse fc r deck url frozen data context = Inr (note, ident) \<longrightarrow>
     ident = None"
  by (auto simp: RegexNote_new_def RegexNote_parse_def Let_def
      split: sum.splits prod.splits if_splits)

theorem regex_note_skips_cloze_validation_witness:
  "\<exists>r note.
     RegexNote_new [Some ''no cloze here'', Some ''no cloze here''] ''Cloze''
       example_fields_dict False False False False = Inr r \<and>
     RegexNote_parse example_formatter r ''Deck'' [] [] example_data [] = Inr (note, None) \<and>
     modelName note = Some ''Cloze'' \<and>
     note_fields note = [(''Text'', ''no cloze here''), (''Extra'', [])] \<and>
     \<not> containsCloze example_constants note"
proof -
  have r: "RegexNote_new [Some ''no cloze here'', Some ''no cloze here''] ''Cloze''
       example_fields_dict False False False False =
     Inr \<lparr>re_match = [Some ''no cloze here'', Some ''no cloze here''], re_note_type = ''Cloze'',
          re_identifier = None, re_tags = [], re_field_names = Some [''Text'', ''Extra''],
          re_curly_cloze = False, re_highlights_to_cloze = False\<rparr>"
    by code_simp
  have p: "RegexNote_parse example_formatter
       \<lparr>re_match = [Some ''no cloze here'', Some ''no cloze here''], re_note_type = ''Cloze'',
          re_identifier = None, re_tags = [], re_field_names = Some [''Text'', ''Extra''],
          re_curly_cloze = False, re_highlights_to_cloze = False\<rparr>
       ''Deck'' [] [] example_data [] =
     Inr (\<lparr>deckName = ''Deck'', modelName = Some ''Cloze'',
            note_fields = [(''Text'', ''no cloze here''), (''Extra'', [])], anki_tags = []\<rparr>,
          None)"
    by code_simp
  have c: "\<not> containsCloze example_constants
       \<lparr>deckName = ''Deck'', modelName = Some ''Cloze'',
        note_fields = [(''Text'', ''no cloze here''), (''Extra'', [])], anki_tags = []\<rparr>"
    by code_simp
  show ?thesis
    using regex_note_skips_cloze_validation [of "[Some ''no cloze here'', Some ''no cloze here'']"
        "''Cloze''" example_fields_dict False False False _ example_formatter "''Deck''" "[]" "[]"
        example_data "[]"] r p c
    by simp
qed

subsection \<open>Identifiers and sentinels; inline notes without a type\<close>

text \<open>
  C10 (the error sentinels live in the identifier domain). \<open>CLOZE_ERROR\<close> and
  \<open>NOTE_TYPE_ERROR\<close> are the numbers 42 and 69, returned in the identifier
  component of the result, of the type of every identifier. A block note of type
  \<open>Basic\<close> whose last line is \<open>ID: 42\<close> parses to the identifier 42 it holds,
  which is the identifier \<open>CLOZE_ERROR\<close> that a \<open>Cloze\<close> note without cloze
  markup and without an identifier parses to; and one whose last line is \<open>ID: 69\<close>
  parses to \<open>NOTE_TYPE_ERROR\<close>.
\<close>

theorem error_sentinels_are_identifiers:
  "CLOZE_ERROR = 42 \<and> NOTE_TYPE_ERROR = 69 \<and>
   Note_getIdentifier [''Basic'', ''Front: Q'', ''Back: A'', ''ID: 42'']
     = (Some (Id 42), [''Basic'', ''Front: Q'', ''Back: A'']) \<and>
   example_block_parse ''Basic\<newline>Front: Q\<newline>Back: A\<newline>ID: 42''
     = Inr (\<lparr>deckName = ''Deck'', modelName = Some ''Basic'',
              note_fields = [(''Front'', ''Q''), (''Back'', ''A'')], anki_tags = []\<rparr>,
            Some (Id CLOZE_ERROR)) \<and>
   Note_getIdentifier [''Cloze'', ''Text: no cloze''] = (None, [''Cloze'', ''Text: no cloze'']) \<and>
   example_block_parse ''Cloze\<newline>Text: no cloze''
     = Inr (\<lparr>deckName = ''Deck'', modelName = Some ''Cloze'',
              note_fields = [(''Text'', ''no cloze''), (''Extra'', [])], anki_tags = []\<rparr>,
            Some (Id CLOZE_ERROR)) \<and>
   example_block_parse ''Basic\<newline>Front: Q\<newline>Back: A\<newline>ID: 69''
     = Inr (\<lparr>deckName = ''Deck'', modelName = Some ''Basic'',
              note_fields = [(''Front'', ''Q''), (''Back'', ''A'')], anki_tags = []\<rparr>,
            Some (Id NOTE_TYPE_ERROR))"
  by code_simp

lemma TYPE_group_take:
  "TYPE_group s = None \<Longrightarrow> TYPE_group (take k s) = None"
proof (induction s arbitrary: k)
  case Nil
  then show ?case by simp
next
  case (Cons c cs)
  show ?case
  proof (cases k)
    case 0
    then show ?thesis by simp
  next
    case (Suc k')
    then show ?thesis
      using Cons by (auto split: if_splits)
  qed
qed

lemma TYPE_REGEXP_exec_None_Cons:
  "TYPE_REGEXP_exec (c # cs) = None \<longleftrightarrow>
     (c = CHR ''['' \<longrightarrow> TYPE_group cs = None) \<and> TYPE_REGEXP_exec cs = None"
  by (auto split: option.splits)

lemma TYPE_REGEXP_exec_drop:
  "TYPE_REGEXP_exec s = None \<Longrightarrow> TYPE_REGEXP_exec (drop k s) = None"
proof (induction s arbitrary: k)
  case Nil
  then show ?case by simp
next
  case (Cons c cs)
  show ?case
  proof (cases k)
    case 0
    then show ?thesis using Cons.prems by simp
  next
    case (Suc k')
    then show ?thesis
      using Cons.IH [of k'] Cons.prems by (simp only: TYPE_REGEXP_exec_None_Cons drop_Suc_Cons)
  qed
qed

lemma TYPE_REGEXP_exec_take:
  "TYPE_REGEXP_exec s = None \<Longrightarrow> TYPE_REGEXP_exec (take k s) = None"
proof (induction s arbitrary: k)
  case Nil
  then show ?case by simp
next
  case (Cons c cs)
  show ?case
  proof (cases k)
    case 0
    then show ?thesis by simp
  next
    case (Suc k')
    have "TYPE_REGEXP_exec (take k' cs) = None"
      using Cons.IH [of k'] Cons.prems by (simp only: TYPE_REGEXP_exec_None_Cons)
    moreover have "c = CHR ''['' \<longrightarrow> TYPE_group (take k' cs) = None"
      using Cons.prems TYPE_group_take by (simp only: TYPE_REGEXP_exec_None_Cons) blast
    ultimately show ?thesis
      using Suc by (simp only: take_Suc_Cons TYPE_REGEXP_exec_None_Cons)
  qed
qed

lemma rev_dropWhile_rev:
  "rev (dropWhile P (rev t)) = take (length t - length (takeWhile P (rev t))) t"
  by (simp add: dropWhile_eq_drop rev_drop)

lemma trim_take_drop:
  "\<exists>m k. trim s = take m (drop k s)"
proof -
  have "\<exists>m. trim s = take m (dropWhile is_ws s)"
    unfolding trim_def by (subst rev_dropWhile_rev) blast
  then obtain m where "trim s = take m (dropWhile is_ws s)" by blast
  then have "trim s = take m (drop (length (takeWhile is_ws s)) s)"
    by (simp only: dropWhile_eq_drop)
  then show ?thesis by blast
qed

lemma TYPE_REGEXP_exec_trim:
  "TYPE_REGEXP_exec s = None \<Longrightarrow> TYPE_REGEXP_exec (trim s) = None"
  using trim_take_drop [of s] TYPE_REGEXP_exec_take TYPE_REGEXP_exec_drop by metis

text \<open>
  C9 (inline-note parsing is not total). For every inline-note span in which
  \<open>TYPE_REGEXP\<close> has no match (no bracketed token \<open>[Name]\<close> on one line),
  constructing the \<open>InlineNote\<close> ends in a \<open>TypeError\<close>: \<open>getIdentifier\<close> and
  \<open>getTags\<close> only cut the text, and \<open>getNoteType\<close> reads \<open>index\<close> of the
  \<open>null\<close> match. No note is returned, flagged or not.
\<close>

theorem inline_note_without_type_throws:
  assumes "TYPE_REGEXP_exec note_text = None"
  shows "InlineNote_new note_text fields_dict curly hl = Inl TypeError"
proof -
  obtain ident text1 where i: "InlineNote_getIdentifier (trim note_text) = (ident, text1)"
    by (cases "InlineNote_getIdentifier (trim note_text)")
  obtain tgs text2 where t: "InlineNote_getTags text1 = (tgs, text2)"
    by (cases "InlineNote_getTags text1")
  have t0: "TYPE_REGEXP_exec (trim note_text) = None"
    using assms by (rule TYPE_REGEXP_exec_trim)
  have t1: "TYPE_REGEXP_exec text1 = None"
    using i t0 TYPE_REGEXP_exec_trim TYPE_REGEXP_exec_take
    by (auto simp: InlineNote_getIdentifier_def split: option.splits)
  have t2: "TYPE_REGEXP_exec text2 = None"
    using t t1 TYPE_REGEXP_exec_trim TYPE_REGEXP_exec_take
    by (auto simp: InlineNote_getTags_def split: option.splits)
  show ?thesis
    using i t t2 by (simp add: InlineNote_new_def InlineNote_getNoteType_def)
qed

theorem inline_note_without_type_throws_witness:
  "TYPE_REGEXP_exec ''Front: Q Back: A ID: 7'' = None \<and>
   InlineNote_new ''Front: Q Back: A ID: 7'' example_fields_dict False False = Inl TypeError"
proof -
  have a: "TYPE_REGEXP_exec ''Front: Q Back: A ID: 7'' = None" by code_simp
  show ?thesis
    using a inline_note_without_type_throws [OF a, of example_fields_dict False False] by simp
qed

subsection \<open>Objects\<close>

lemma obj_keys_simps [simp]:
  "obj_keys [] = []"
  "obj_keys ((k, v) # ob) = k # obj_keys ob"
  "obj_keys (ob @ ob') = obj_keys ob @ obj_keys ob'"
  by (simp_all add: obj_keys_def)

lemma obj_get_None: "(obj_get ob k = None) = (k \<notin> set (obj_keys ob))"
  by (simp add: obj_get_def obj_keys_def map_of_eq_None_iff)

lemma keys_insert_key:
  "set (obj_keys (insert_key k v ob)) = insert k (set (obj_keys ob))"
  by (induction ob) (auto split: if_splits)

lemma distinct_insert_key:
  "k \<notin> set (obj_keys ob) \<Longrightarrow> distinct (obj_keys ob) \<Longrightarrow>
   distinct (obj_keys (insert_key k v ob))"
  by (induction ob) (auto simp: keys_insert_key)

lemma obj_get_insert_key:
  "k \<notin> set (obj_keys ob) \<Longrightarrow>
   obj_get (insert_key k v ob) k' = (if k' = k then Some v else obj_get ob k')"
  unfolding obj_get_def by (induction ob) auto

lemma keys_replace:
  "obj_keys (map (\<lambda>(k', v'). if k' = k then (k', v) else (k', v')) ob) = obj_keys ob"
  by (induction ob) auto

lemma obj_get_replace:
  "obj_get (map (\<lambda>(k', v'). if k' = k then (k', v) else (k', v')) ob) k' =
     (if k' = k \<and> k \<in> set (obj_keys ob) then Some v else obj_get ob k')"
  unfolding obj_get_def by (induction ob) auto

lemma keys_obj_set:
  "set (obj_keys (obj_set ob k v)) =
     (if k = ''__proto__'' then set (obj_keys ob) else insert k (set (obj_keys ob)))"
  by (auto simp: obj_set_def keys_replace keys_insert_key)

lemma keys_obj_set_own:
  "k \<in> set (obj_keys ob) \<Longrightarrow> obj_keys (obj_set ob k v) = obj_keys ob"
  by (simp add: obj_set_def keys_replace)

lemma distinct_obj_set:
  "distinct (obj_keys ob) \<Longrightarrow> distinct (obj_keys (obj_set ob k v))"
  by (simp add: obj_set_def keys_replace distinct_insert_key)

lemma obj_get_obj_set:
  "obj_get (obj_set ob k v) k' =
     (if k' = k \<and> k \<noteq> ''__proto__'' then Some v else obj_get ob k')"
  by (simp add: obj_set_def obj_get_replace obj_get_insert_key)

lemma keys_obj_append_own:
  "k \<in> set (obj_keys ob) \<Longrightarrow> obj_keys (obj_append ob k s) = obj_keys ob"
  by (simp add: obj_append_def keys_obj_set_own)

lemma obj_get_obj_append_own:
  "obj_get ob k = Some old \<Longrightarrow> k \<noteq> ''__proto__'' \<Longrightarrow>
   obj_get (obj_append ob k s) k' = (if k' = k then Some (old @ s) else obj_get ob k')"
  by (simp add: obj_append_def obj_get_obj_set obj_read_def)

lemma foldl_obj_set_keys:
  "set (obj_keys (foldl (\<lambda>flds field. obj_set flds field v) ob names)) =
     set (obj_keys ob) \<union> (set names - {''__proto__''})"
proof (induction names arbitrary: ob)
  case Nil
  then show ?case by simp
next
  case (Cons a names)
  show ?case using Cons [of "obj_set ob a v"] by (auto simp: keys_obj_set)
qed

lemma foldl_obj_set_distinct:
  "distinct (obj_keys ob) \<Longrightarrow>
   distinct (obj_keys (foldl (\<lambda>flds field. obj_set flds field v) ob names))"
proof (induction names arbitrary: ob)
  case Nil
  then show ?case by simp
next
  case (Cons a names)
  have "distinct (obj_keys (obj_set ob a v))"
    using Cons.prems by (rule distinct_obj_set)
  then show ?case using Cons.IH by simp
qed

lemma foldl_obj_set_get:
  "obj_get (foldl (\<lambda>flds field. obj_set flds field v) ob names) k =
     (if k \<in> set names \<and> k \<noteq> ''__proto__'' then Some v else obj_get ob k)"
proof (induction names arbitrary: ob)
  case Nil
  then show ?case by simp
next
  case (Cons a names)
  show ?case using Cons [of "obj_set ob a v"] by (simp add: obj_get_obj_set)
qed

lemma empty_fields_keys:
  "set (obj_keys (empty_fields names)) = set names - {''__proto__''}"
  "distinct (obj_keys (empty_fields names))"
  "obj_get (empty_fields names) k =
     (if k \<in> set names \<and> k \<noteq> ''__proto__'' then Some [] else None)"
proof -
  show "set (obj_keys (empty_fields names)) = set names - {''__proto__''}"
    using foldl_obj_set_keys [of "[]" "[]" names] by (simp add: empty_fields_def)
  show "distinct (obj_keys (empty_fields names))"
    using foldl_obj_set_distinct [of "[]" "[]" names] by (simp add: empty_fields_def)
  show "obj_get (empty_fields names) k =
     (if k \<in> set names \<and> k \<noteq> ''__proto__'' then Some [] else None)"
  proof -
    have "obj_get ([] :: string obj) k = None" by (simp add: obj_get_def)
    then show ?thesis
      using foldl_obj_set_get [of "[] :: string" "[] :: string obj" names k]
      by (simp add: empty_fields_def)
  qed
qed

lemma obj_get_map_values:
  "obj_get (map (\<lambda>(k, v). (k, g v)) ob) k = map_option g (obj_get ob k)"
  unfolding obj_get_def by (induction ob) auto

lemma keys_map_values:
  "obj_keys (map (\<lambda>(k, v). (k, g v)) ob) = obj_keys ob"
  by (induction ob) auto

subsection \<open>The pieces of text a field is given\<close>

lemma captured_simps [simp]:
  "captured [] k = []"
  "captured ((f, s) # pieces) k = (if f = Some k then s else []) @ captured pieces k"
  by (simp_all add: captured_def)

text \<open>
  Appending pieces to fields the object has: the keys stay, and each field ends with
  the pieces it was given, in order.
\<close>

lemma append_pieces:
  assumes "\<forall>(f, s) \<in> set pieces.
             \<exists>c. f = Some c \<and> c \<in> set (obj_keys flds) \<and> c \<noteq> ''__proto__''"
  shows "obj_keys (foldl (\<lambda>ob (f, s). obj_append ob (js_string f) s) flds pieces) = obj_keys flds \<and>
         (\<forall>k. obj_get (foldl (\<lambda>ob (f, s). obj_append ob (js_string f) s) flds pieces) k =
               map_option (\<lambda>old. old @ captured pieces k) (obj_get flds k))"
  using assms
proof (induction pieces arbitrary: flds)
  case Nil
  then show ?case by (simp add: option.map_ident)
next
  case (Cons p pieces)
  obtain f s where p: "p = (f, s)" by (cases p)
  obtain c where c: "f = Some c" "c \<in> set (obj_keys flds)" "c \<noteq> ''__proto__''"
    using Cons.prems p by auto
  obtain old where old: "obj_get flds c = Some old"
    using c(2) obj_get_None [of flds c] by (cases "obj_get flds c") auto
  let ?flds = "obj_append flds c s"
  have keys: "obj_keys ?flds = obj_keys flds"
    using c(2) by (rule keys_obj_append_own)
  have get: "obj_get ?flds k = (if k = c then Some (old @ s) else obj_get flds k)" for k
    using old c(3) by (rule obj_get_obj_append_own)
  have "\<forall>(f, s) \<in> set pieces.
      \<exists>c. f = Some c \<and> c \<in> set (obj_keys ?flds) \<and> c \<noteq> ''__proto__''"
    using Cons.prems keys by simp
  from Cons.IH [OF this]
  have ih: "obj_keys (foldl (\<lambda>ob (f, s). obj_append ob (js_string f) s) ?flds pieces) = obj_keys ?flds"
    "\<And>k. obj_get (foldl (\<lambda>ob (f, s). obj_append ob (js_string f) s) ?flds pieces) k =
          map_option (\<lambda>old. old @ captured pieces k) (obj_get ?flds k)"
    by simp_all
  have step: "foldl (\<lambda>ob (f, s). obj_append ob (js_string f) s) flds (p # pieces) =
      foldl (\<lambda>ob (f, s). obj_append ob (js_string f) s) ?flds pieces"
    using p c(1) by (simp add: js_string_def)
  show ?case
  proof (intro conjI allI)
    show "obj_keys (foldl (\<lambda>ob (f, s). obj_append ob (js_string f) s) flds (p # pieces)) =
        obj_keys flds"
      unfolding step using ih(1) keys by simp
    fix k
    show "obj_get (foldl (\<lambda>ob (f, s). obj_append ob (js_string f) s) flds (p # pieces)) k =
        map_option (\<lambda>old. old @ captured (p # pieces) k) (obj_get flds k)"
      unfolding step ih(2) using get [of k] old p c(1) by (cases "obj_get flds k") auto
  qed
qed

text \<open>Assigning pieces to fields the object has: each field ends with its last piece.\<close>

lemma assign_pieces:
  assumes "\<forall>(f, s) \<in> set pieces.
             \<exists>c. f = Some c \<and> c \<in> set (obj_keys flds) \<and> c \<noteq> ''__proto__''"
  shows "obj_keys (foldl (\<lambda>ob (f, s). obj_set ob (js_string f) s) flds pieces) = obj_keys flds \<and>
         (\<forall>k. obj_get (foldl (\<lambda>ob (f, s). obj_set ob (js_string f) s) flds pieces) k =
               map_option (assigned pieces k) (obj_get flds k))"
  using assms
proof (induction pieces arbitrary: flds)
  case Nil
  have "assigned [] k = (\<lambda>v. v)" for k by (rule ext) simp
  then show ?case by (simp add: option.map_ident)
next
  case (Cons p pieces)
  obtain f s where p: "p = (f, s)" by (cases p)
  obtain c where c: "f = Some c" "c \<in> set (obj_keys flds)" "c \<noteq> ''__proto__''"
    using Cons.prems p by auto
  let ?flds = "obj_set flds c s"
  have keys: "obj_keys ?flds = obj_keys flds"
    using c(2) by (rule keys_obj_set_own)
  have get: "obj_get ?flds k = (if k = c then Some s else obj_get flds k)" for k
    using c(3) by (simp add: obj_get_obj_set)
  have "\<forall>(f, s) \<in> set pieces.
      \<exists>c. f = Some c \<and> c \<in> set (obj_keys ?flds) \<and> c \<noteq> ''__proto__''"
    using Cons.prems keys by simp
  from Cons.IH [OF this]
  have ih: "obj_keys (foldl (\<lambda>ob (f, s). obj_set ob (js_string f) s) ?flds pieces) = obj_keys ?flds"
    "\<And>k. obj_get (foldl (\<lambda>ob (f, s). obj_set ob (js_string f) s) ?flds pieces) k =
          map_option (assigned pieces k) (obj_get ?flds k)"
    by simp_all
  have step: "foldl (\<lambda>ob (f, s). obj_set ob (js_string f) s) flds (p # pieces) =
      foldl (\<lambda>ob (f, s). obj_set ob (js_string f) s) ?flds pieces"
    using p c(1) by (simp add: js_string_def)
  have own: "obj_get flds c \<noteq> None" using c(2) by (simp add: obj_get_None)
  show ?case
  proof (intro conjI allI)
    show "obj_keys (foldl (\<lambda>ob (f, s). obj_set ob (js_string f) s) flds (p # pieces)) =
        obj_keys flds"
      unfolding step using ih(1) keys by simp
    fix k
    show "obj_get (foldl (\<lambda>ob (f, s). obj_set ob (js_string f) s) flds (p # pieces)) k =
        map_option (assigned (p # pieces) k) (obj_get flds k)"
      unfolding step ih(2) using get [of k] own p c(1) by (cases "obj_get flds k") auto
  qed
qed

subsection \<open>Formatting the fields\<close>

lemma format_fields_map:
  "format_fields fc (Some t) curly hl raw =
     Inr (map (\<lambda>(k, v). (k, format_field fc t curly hl v)) raw)"
  by (simp add: format_fields_def)

lemma appended_fields:
  assumes pieces: "\<forall>(f, s) \<in> set pieces. \<exists>c. f = Some c \<and> c \<in> set names"
      and proto: "''__proto__'' \<notin> set names"
      and raw: "raw = foldl (\<lambda>ob (f, s). obj_append ob (js_string f) s) (empty_fields names) pieces"
      and out: "out = map (\<lambda>(k, v). (k, g v)) raw"
  shows "set (obj_keys out) = set names" and "distinct (obj_keys out)"
    and "\<forall>f \<in> set names. obj_get out f = Some (g (captured pieces f))"
proof -
  have keys0: "set (obj_keys (empty_fields names)) = set names"
    using proto by (simp add: empty_fields_keys(1))
  have "\<forall>(f, s) \<in> set pieces.
      \<exists>c. f = Some c \<and> c \<in> set (obj_keys (empty_fields names)) \<and> c \<noteq> ''__proto__''"
    using pieces proto keys0 by fastforce
  from append_pieces [OF this]
  have keys: "obj_keys raw = obj_keys (empty_fields names)"
    and get: "\<And>k. obj_get raw k =
        map_option (\<lambda>old. old @ captured pieces k) (obj_get (empty_fields names) k)"
    unfolding raw by simp_all
  show "set (obj_keys out) = set names"
    unfolding out using keys keys0 by (simp add: keys_map_values)
  show "distinct (obj_keys out)"
    unfolding out using keys empty_fields_keys(2) [of names] by (simp add: keys_map_values)
  show "\<forall>f \<in> set names. obj_get out f = Some (g (captured pieces f))"
    unfolding out using get proto by (auto simp: obj_get_map_values empty_fields_keys(3))
qed

lemma assigned_fields:
  assumes pieces: "\<forall>(f, s) \<in> set pieces. \<exists>c. f = Some c \<and> c \<in> set names"
      and proto: "''__proto__'' \<notin> set names"
      and raw: "raw = foldl (\<lambda>ob (f, s). obj_set ob (js_string f) s) (empty_fields names) pieces"
      and out: "out = map (\<lambda>(k, v). (k, g v)) raw"
  shows "set (obj_keys out) = set names" and "distinct (obj_keys out)"
    and "\<forall>f \<in> set names. obj_get out f = Some (g (assigned pieces f []))"
proof -
  have keys0: "set (obj_keys (empty_fields names)) = set names"
    using proto by (simp add: empty_fields_keys(1))
  have "\<forall>(f, s) \<in> set pieces.
      \<exists>c. f = Some c \<and> c \<in> set (obj_keys (empty_fields names)) \<and> c \<noteq> ''__proto__''"
    using pieces proto keys0 by fastforce
  from assign_pieces [OF this]
  have keys: "obj_keys raw = obj_keys (empty_fields names)"
    and get: "\<And>k. obj_get raw k =
        map_option (assigned pieces k) (obj_get (empty_fields names) k)"
    unfolding raw by simp_all
  show "set (obj_keys out) = set names"
    unfolding out using keys keys0 by (simp add: keys_map_values)
  show "distinct (obj_keys out)"
    unfolding out using keys empty_fields_keys(2) [of names] by (simp add: keys_map_values)
  show "\<forall>f \<in> set names. obj_get out f = Some (g (assigned pieces f []))"
    unfolding out using get proto by (auto simp: obj_get_map_values empty_fields_keys(3))
qed

lemma captured_one_field:
  "captured (map (\<lambda>l. (Some c, g l)) ls) k = (if k = c then concat (map g ls) else [])"
  by (induction ls) auto

subsection \<open>The fields of a block note\<close>

lemma fieldFromLine_loop_field:
  "fieldFromLine_loop names line = Some (rest, field) \<Longrightarrow> field \<in> set names"
  by (induction names) (auto split: if_splits)

lemma fieldFromLine_loop_None:
  "\<forall>f \<in> set names. \<not> startsWith line (f @ '':'') \<Longrightarrow> fieldFromLine_loop names line = None"
  by (induction names) auto

lemma Note_lines_loop_captures:
  "fst (Note_lines_loop names ls flds cur) =
     foldl (\<lambda>ob (f, s). obj_append ob (js_string f) s) flds (Note_captures names cur ls)"
  by (induction ls arbitrary: flds cur) (auto split: prod.splits)

lemma Note_captures_fields:
  "c \<in> set names \<Longrightarrow>
   \<forall>(f, s) \<in> set (Note_captures names (Some c) ls). \<exists>c'. f = Some c' \<and> c' \<in> set names"
proof (induction ls arbitrary: c)
  case Nil
  then show ?case by simp
next
  case (Cons l ls)
  obtain line' cur' where f: "Note_fieldFromLine names (Some c) l = (line', cur')"
    by (cases "Note_fieldFromLine names (Some c) l")
  have "\<exists>c'. cur' = Some c' \<and> c' \<in> set names"
    using f Cons.prems fieldFromLine_loop_field
    by (fastforce simp: Note_fieldFromLine_def split: option.splits prod.splits)
  then obtain c' where c': "cur' = Some c'" "c' \<in> set names" by blast
  show ?case using f c' Cons.IH [OF c'(2)] by simp
qed

lemma Note_captures_plain:
  "\<forall>l \<in> set ls. \<forall>f \<in> set names. \<not> startsWith l (f @ '':'') \<Longrightarrow>
   Note_captures names cur ls = map (\<lambda>l. (cur, l @ [newline])) ls"
  by (induction ls) (simp_all add: Note_fieldFromLine_def fieldFromLine_loop_None)

lemma Note_getFields_fields:
  assumes "field_names n = Some names" and "current_field n = Some c" and "c \<in> set names"
      and "note_type n = Some t" and "''__proto__'' \<notin> set names"
  shows "\<exists>flds n'. Note_getFields fc n = Inr (flds, n') \<and>
           set (obj_keys flds) = set names \<and> distinct (obj_keys flds) \<and>
           (\<forall>f \<in> set names.
              obj_get flds f =
                Some (format_field fc t (curly_cloze n) (highlights_to_cloze n)
                        (captured (Note_captures names (Some c) (drop 1 (split_text n))) f)))"
proof -
  let ?pieces = "Note_captures names (Some c) (drop 1 (split_text n))"
  let ?raw = "foldl (\<lambda>ob (f, s). obj_append ob (js_string f) s) (empty_fields names) ?pieces"
  let ?g = "format_field fc t (curly_cloze n) (highlights_to_cloze n)"
  let ?out = "map (\<lambda>(k, v). (k, ?g v)) ?raw"
  obtain raw cur where
    l: "Note_lines_loop names (drop 1 (split_text n)) (empty_fields names) (Some c) = (raw, cur)"
    by (cases "Note_lines_loop names (drop 1 (split_text n)) (empty_fields names) (Some c)")
  have raw: "raw = ?raw"
    using Note_lines_loop_captures [of names "drop 1 (split_text n)" "empty_fields names" "Some c"] l
    by simp
  have run: "Note_getFields fc n = Inr (?out, n\<lparr>current_field := cur\<rparr>)"
    using assms(1,2,4) l raw by (simp add: Note_getFields_def format_fields_map)
  note r = appended_fields [where pieces = ?pieces and g = ?g,
      OF Note_captures_fields [OF assms(3)] assms(5) refl refl]
  show ?thesis
    using run r by (intro exI [of _ ?out] exI [of _ "n\<lparr>current_field := cur\<rparr>"]) simp
qed

subsection \<open>The fields of an inline note\<close>

lemma InlineNote_fields_loop_key:
  "InlineNote_fields_loop names word cur = (word', cur') \<Longrightarrow>
   cur' = cur \<or> (\<exists>f \<in> set names. cur' = Some f)"
proof (induction names arbitrary: word cur)
  case Nil
  then show ?case by simp
next
  case (Cons a names)
  show ?case
  proof (cases "word = a @ '':''")
    case True
    then have "InlineNote_fields_loop names [] (Some a) = (word', cur')"
      using Cons.prems by simp
    from Cons.IH [OF this] show ?thesis by auto
  next
    case False
    then have "InlineNote_fields_loop names word cur = (word', cur')"
      using Cons.prems by simp
    from Cons.IH [OF this] show ?thesis by auto
  qed
qed

lemma InlineNote_fields_loop_None:
  "\<forall>f \<in> set names. word \<noteq> f @ '':'' \<Longrightarrow> InlineNote_fields_loop names word cur = (word, cur)"
  by (induction names) auto

lemma InlineNote_words_loop_captures:
  "fst (InlineNote_words_loop names ws flds cur) =
     foldl (\<lambda>ob (f, s). obj_append ob (js_string f) s) flds (InlineNote_captures names cur ws)"
  by (induction ws arbitrary: flds cur) (auto split: prod.splits)

lemma InlineNote_captures_fields:
  "c \<in> set names \<Longrightarrow>
   \<forall>(f, s) \<in> set (InlineNote_captures names (Some c) ws). \<exists>c'. f = Some c' \<and> c' \<in> set names"
proof (induction ws arbitrary: c)
  case Nil
  then show ?case by simp
next
  case (Cons w ws)
  obtain word' cur' where f: "InlineNote_fields_loop names w (Some c) = (word', cur')"
    by (cases "InlineNote_fields_loop names w (Some c)")
  have "\<exists>c'. cur' = Some c' \<and> c' \<in> set names"
    using InlineNote_fields_loop_key [OF f] Cons.prems by auto
  then obtain c' where c': "cur' = Some c'" "c' \<in> set names" by blast
  show ?case using f c' Cons.IH [OF c'(2)] by simp
qed

lemma InlineNote_captures_plain:
  "\<forall>w \<in> set ws. \<forall>f \<in> set names. w \<noteq> f @ '':'' \<Longrightarrow>
   InlineNote_captures names cur ws = map (\<lambda>w. (cur, w @ '' '')) ws"
  by (induction ws) (simp_all add: InlineNote_fields_loop_None)

lemma InlineNote_getFields_fields:
  assumes "field_names n = Some names" and "current_field n = Some c" and "c \<in> set names"
      and "note_type n = Some t" and "''__proto__'' \<notin> set names"
  shows "\<exists>flds n'. InlineNote_getFields fc n = Inr (flds, n') \<and>
           set (obj_keys flds) = set names \<and> distinct (obj_keys flds) \<and>
           (\<forall>f \<in> set names.
              obj_get flds f =
                Some (format_field fc t (curly_cloze n) (highlights_to_cloze n)
                        (captured (InlineNote_captures names (Some c)
                                     (split_on CHR '' '' (this_text n))) f)))"
proof -
  let ?ws = "split_on CHR '' '' (this_text n)"
  let ?pieces = "InlineNote_captures names (Some c) ?ws"
  let ?raw = "foldl (\<lambda>ob (f, s). obj_append ob (js_string f) s) (empty_fields names) ?pieces"
  let ?g = "format_field fc t (curly_cloze n) (highlights_to_cloze n)"
  let ?out = "map (\<lambda>(k, v). (k, ?g v)) ?raw"
  obtain raw cur where
    l: "InlineNote_words_loop names ?ws (empty_fields names) (Some c) = (raw, cur)"
    by (cases "InlineNote_words_loop names ?ws (empty_fields names) (Some c)")
  have raw: "raw = ?raw"
    using InlineNote_words_loop_captures [of names ?ws "empty_fields names" "Some c"] l
    by simp
  have run: "InlineNote_getFields fc n = Inr (?out, n\<lparr>current_field := cur\<rparr>)"
    using assms(1,2,4) l raw by (simp add: InlineNote_getFields_def format_fields_map)
  note r = appended_fields [where pieces = ?pieces and g = ?g,
      OF InlineNote_captures_fields [OF assms(3)] assms(5) refl refl]
  show ?thesis
    using run r by (intro exI [of _ ?out] exI [of _ "n\<lparr>current_field := cur\<rparr>"]) simp
qed

subsection \<open>The fields of a regex note\<close>

lemma RegexNote_groups_loop_captures:
  "RegexNote_groups_loop names index gs flds =
     foldl (\<lambda>ob (f, s). obj_set ob (js_string f) s) flds (RegexNote_captures names index gs)"
  by (induction gs arbitrary: index flds) simp_all

lemma RegexNote_captures_fields:
  "index + length gs \<le> length names \<Longrightarrow>
   \<forall>(f, s) \<in> set (RegexNote_captures names index gs). \<exists>c. f = Some c \<and> c \<in> set names"
proof (induction gs arbitrary: index)
  case Nil
  then show ?case by simp
next
  case (Cons g gs)
  have "Suc index + length gs \<le> length names" using Cons.prems by simp
  from Cons.IH [OF this] show ?case using Cons.prems by simp
qed

lemma RegexNote_captures_assigned:
  "index + length gs \<le> length names \<Longrightarrow> distinct names \<Longrightarrow> j < length names \<Longrightarrow>
   assigned (RegexNote_captures names index gs) (names ! j) v =
     (if index \<le> j \<and> j < index + length gs
      then (case gs ! (j - index) of None \<Rightarrow> [] | Some s \<Rightarrow> s)
      else v)"
proof (induction gs arbitrary: index v)
  case Nil
  then show ?case by auto
next
  case (Cons g gs)
  have i: "index < length names" using Cons.prems by simp
  have eq: "(names ! index = names ! j) = (j = index)"
    using Cons.prems i by (auto simp: nth_eq_iff_index_eq)
  let ?v = "if j = index then (case g of None \<Rightarrow> [] | Some s \<Rightarrow> s) else v"
  have "assigned (RegexNote_captures names (Suc index) gs) (names ! j) ?v =
     (if Suc index \<le> j \<and> j < Suc index + length gs
      then (case gs ! (j - Suc index) of None \<Rightarrow> [] | Some s \<Rightarrow> s)
      else ?v)"
    using Cons.prems by (intro Cons.IH) simp_all
  then have step: "assigned (RegexNote_captures names index (g # gs)) (names ! j) v =
     (if Suc index \<le> j \<and> j < Suc index + length gs
      then (case gs ! (j - Suc index) of None \<Rightarrow> [] | Some s \<Rightarrow> s)
      else ?v)"
    using i eq by simp
  have nth: "(g # gs) ! (j - index) = gs ! (j - Suc index)" if "index < j"
    using that by (simp add: nth_Cons')
  show ?case
  proof (cases "index < j")
    case True
    then show ?thesis using step nth [OF True] by auto
  next
    case False
    then show ?thesis using step by auto
  qed
qed

lemma RegexNote_getFields_fields:
  assumes "re_field_names r = Some names"
      and "length (drop 1 (re_match r)) \<le> length names"
      and "''__proto__'' \<notin> set names"
  shows "\<exists>flds. RegexNote_getFields fc r = Inr flds \<and>
           set (obj_keys flds) = set names \<and> distinct (obj_keys flds) \<and>
           (\<forall>f \<in> set names.
              obj_get flds f =
                Some (format_field fc (re_note_type r) (re_curly_cloze r)
                        (re_highlights_to_cloze r)
                        (assigned (RegexNote_captures names 0 (drop 1 (re_match r))) f [])))"
proof -
  let ?gs = "drop 1 (re_match r)"
  let ?pieces = "RegexNote_captures names 0 ?gs"
  let ?raw = "foldl (\<lambda>ob (f, s). obj_set ob (js_string f) s) (empty_fields names) ?pieces"
  let ?g = "format_field fc (re_note_type r) (re_curly_cloze r) (re_highlights_to_cloze r)"
  let ?out = "map (\<lambda>(k, v). (k, ?g v)) ?raw"
  have run: "RegexNote_getFields fc r = Inr ?out"
    using assms(1)
    by (simp add: RegexNote_getFields_def format_fields_map RegexNote_groups_loop_captures)
  have "0 + length ?gs \<le> length names" using assms(2) by simp
  note r = assigned_fields [where pieces = ?pieces and g = ?g,
      OF RegexNote_captures_fields [OF this] assms(3) refl refl]
  show ?thesis
    using run r by (intro exI [of _ ?out]) simp
qed

subsection \<open>Trailing lines of a block note\<close>

lemma split_on_not_Nil [simp]: "split_on sep s \<noteq> []"
  by (induction s) (auto split: list.splits)











subsection \<open>Field completeness\<close>

lemma format_field_blank:
  "\<forall>cloze hl'. trim (format fc [] cloze hl') = [] \<Longrightarrow> trim v = [] \<Longrightarrow>
   format_field fc t curly hl v = []"
  by (simp add: format_field_def)

lemma trim_Nil [simp]: "trim [] = []"
  by (simp add: trim_def)

lemma Note_getFields_complete:
  assumes fn: "field_names n = Some names" and cf: "current_field n = Some c"
      and cin: "c \<in> set names" and nt: "note_type n = Some t"
      and proto: "''__proto__'' \<notin> set names"
      and blank: "\<forall>cloze hl'. trim (format fc [] cloze hl') = []"
  shows "\<exists>flds n'. Note_getFields fc n = Inr (flds, n') \<and>
           set (obj_keys flds) = set names \<and> distinct (obj_keys flds) \<and>
           (\<forall>f \<in> set names.
              obj_get flds f =
                Some (format_field fc t (curly_cloze n) (highlights_to_cloze n)
                        (captured (Note_captures names (Some c) (drop 1 (split_text n))) f)) \<and>
              (trim (captured (Note_captures names (Some c) (drop 1 (split_text n))) f) = [] \<longrightarrow>
                 obj_get flds f = Some [])) \<and>
           ((\<forall>line \<in> set (drop 1 (split_text n)). \<forall>f \<in> set names. \<not> startsWith line (f @ '':'')) \<longrightarrow>
              obj_get flds c =
                Some (format_field fc t (curly_cloze n) (highlights_to_cloze n)
                        (concat (map (\<lambda>l. l @ [newline]) (drop 1 (split_text n))))) \<and>
              (\<forall>f \<in> set names. f \<noteq> c \<longrightarrow> obj_get flds f = Some []))"
proof -
  let ?body = "drop 1 (split_text n)"
  let ?P = "Note_captures names (Some c) ?body"
  let ?G = "format_field fc t (curly_cloze n) (highlights_to_cloze n)"
  obtain flds n' where
    run: "Note_getFields fc n = Inr (flds, n')" and
    keys: "set (obj_keys flds) = set names" and
    dist: "distinct (obj_keys flds)" and
    vals: "\<forall>f \<in> set names. obj_get flds f = Some (?G (captured ?P f))"
    using Note_getFields_fields [OF fn cf cin nt proto, of fc] by blast
  have blanks: "obj_get flds f = Some []" if "f \<in> set names" and "trim (captured ?P f) = []" for f
    using vals that format_field_blank [OF blank that(2)] by simp
  have plain: "obj_get flds c = Some (?G (concat (map (\<lambda>l. l @ [newline]) ?body))) \<and>
      (\<forall>f \<in> set names. f \<noteq> c \<longrightarrow> obj_get flds f = Some [])"
    if p: "\<forall>line \<in> set ?body. \<forall>f \<in> set names. \<not> startsWith line (f @ '':'')"
  proof -
    have P: "?P = map (\<lambda>l. (Some c, l @ [newline])) ?body"
      using p by (rule Note_captures_plain)
    have cap: "captured ?P f = (if f = c then concat (map (\<lambda>l. l @ [newline]) ?body) else [])" for f
      unfolding P by (rule captured_one_field)
    have "obj_get flds c = Some (?G (concat (map (\<lambda>l. l @ [newline]) ?body)))"
      using vals cin cap [of c] by simp
    moreover have "\<forall>f \<in> set names. f \<noteq> c \<longrightarrow> obj_get flds f = Some []"
      using blanks cap by simp
    ultimately show ?thesis by (rule conjI)
  qed
  show ?thesis
    using run keys dist vals blanks plain by (intro exI [of _ flds] exI [of _ n']) blast
qed

lemma InlineNote_getFields_complete:
  assumes fn: "field_names n = Some names" and cf: "current_field n = Some c"
      and cin: "c \<in> set names" and nt: "note_type n = Some t"
      and proto: "''__proto__'' \<notin> set names"
      and blank: "\<forall>cloze hl'. trim (format fc [] cloze hl') = []"
  shows "\<exists>flds n'. InlineNote_getFields fc n = Inr (flds, n') \<and>
           set (obj_keys flds) = set names \<and> distinct (obj_keys flds) \<and>
           (\<forall>f \<in> set names.
              obj_get flds f =
                Some (format_field fc t (curly_cloze n) (highlights_to_cloze n)
                        (captured (InlineNote_captures names (Some c)
                                     (split_on CHR '' '' (this_text n))) f)) \<and>
              (trim (captured (InlineNote_captures names (Some c)
                                 (split_on CHR '' '' (this_text n))) f) = [] \<longrightarrow>
                 obj_get flds f = Some [])) \<and>
           ((\<forall>w \<in> set (split_on CHR '' '' (this_text n)). \<forall>f \<in> set names. w \<noteq> f @ '':'') \<longrightarrow>
              obj_get flds c =
                Some (format_field fc t (curly_cloze n) (highlights_to_cloze n)
                        (concat (map (\<lambda>w. w @ '' '') (split_on CHR '' '' (this_text n))))) \<and>
              (\<forall>f \<in> set names. f \<noteq> c \<longrightarrow> obj_get flds f = Some []))"
proof -
  let ?body = "split_on CHR '' '' (this_text n)"
  let ?P = "InlineNote_captures names (Some c) ?body"
  let ?G = "format_field fc t (curly_cloze n) (highlights_to_cloze n)"
  obtain flds n' where
    run: "InlineNote_getFields fc n = Inr (flds, n')" and
    keys: "set (obj_keys flds) = set names" and
    dist: "distinct (obj_keys flds)" and
    vals: "\<forall>f \<in> set names. obj_get flds f = Some (?G (captured ?P f))"
    using InlineNote_getFields_fields [OF fn cf cin nt proto, of fc] by blast
  have blanks: "obj_get flds f = Some []" if "f \<in> set names" and "trim (captured ?P f) = []" for f
    using vals that format_field_blank [OF blank that(2)] by simp
  have plain: "obj_get flds c = Some (?G (concat (map (\<lambda>w. w @ '' '') ?body))) \<and>
      (\<forall>f \<in> set names. f \<noteq> c \<longrightarrow> obj_get flds f = Some [])"
    if p: "\<forall>w \<in> set ?body. \<forall>f \<in> set names. w \<noteq> f @ '':''"
  proof -
    have P: "?P = map (\<lambda>w. (Some c, w @ '' '')) ?body"
      using p by (rule InlineNote_captures_plain)
    have cap: "captured ?P f = (if f = c then concat (map (\<lambda>w. w @ '' '') ?body) else [])" for f
      unfolding P by (rule captured_one_field)
    have "obj_get flds c = Some (?G (concat (map (\<lambda>w. w @ '' '') ?body)))"
      using vals cin cap [of c] by simp
    moreover have "\<forall>f \<in> set names. f \<noteq> c \<longrightarrow> obj_get flds f = Some []"
      using blanks cap by simp
    ultimately show ?thesis by (rule conjI)
  qed
  show ?thesis
    using run keys dist vals blanks plain by (intro exI [of _ flds] exI [of _ n']) blast
qed

lemma RegexNote_getFields_complete:
  assumes fn: "re_field_names r = Some names"
      and len: "length (drop 1 (re_match r)) \<le> length names"
      and proto: "''__proto__'' \<notin> set names"
      and blank: "\<forall>cloze hl'. trim (format fc [] cloze hl') = []"
  shows "\<exists>flds. RegexNote_getFields fc r = Inr flds \<and>
           set (obj_keys flds) = set names \<and> distinct (obj_keys flds) \<and>
           (\<forall>f \<in> set names.
              obj_get flds f =
                Some (format_field fc (re_note_type r) (re_curly_cloze r)
                        (re_highlights_to_cloze r)
                        (assigned (RegexNote_captures names 0 (drop 1 (re_match r))) f [])) \<and>
              (trim (assigned (RegexNote_captures names 0 (drop 1 (re_match r))) f []) = [] \<longrightarrow>
                 obj_get flds f = Some [])) \<and>
           (distinct names \<longrightarrow>
              (\<forall>j < length names.
                 obj_get flds (names ! j) =
                   Some (format_field fc (re_note_type r) (re_curly_cloze r)
                           (re_highlights_to_cloze r)
                           (if j < length (drop 1 (re_match r))
                            then (case drop 1 (re_match r) ! j of None \<Rightarrow> [] | Some s \<Rightarrow> s)
                            else []))))"
proof -
  let ?gs = "drop 1 (re_match r)"
  let ?P = "RegexNote_captures names 0 ?gs"
  let ?G = "format_field fc (re_note_type r) (re_curly_cloze r) (re_highlights_to_cloze r)"
  obtain flds where
    run: "RegexNote_getFields fc r = Inr flds" and
    keys: "set (obj_keys flds) = set names" and
    dist: "distinct (obj_keys flds)" and
    vals: "\<forall>f \<in> set names. obj_get flds f = Some (?G (assigned ?P f []))"
    using RegexNote_getFields_fields [OF fn len proto, of fc] by blast
  have blanks: "obj_get flds f = Some []" if "f \<in> set names" and "trim (assigned ?P f []) = []" for f
    using vals that format_field_blank [OF blank that(2)] by simp
  have groups: "obj_get flds (names ! j) =
      Some (?G (if j < length ?gs then (case ?gs ! j of None \<Rightarrow> [] | Some s \<Rightarrow> s) else []))"
    if d: "distinct names" and j: "j < length names" for j
  proof -
    have "0 + length ?gs \<le> length names" using len by simp
    from RegexNote_captures_assigned [OF this d j, of "[]"]
    have "assigned ?P (names ! j) [] =
        (if j < length ?gs then (case ?gs ! j of None \<Rightarrow> [] | Some s \<Rightarrow> s) else [])"
      by simp
    then show ?thesis using vals j by simp
  qed
  show ?thesis
    using run keys dist vals blanks groups by (intro exI [of _ flds]) blast
qed

text \<open>
  C5 (field completeness), as amended. Let the formatter render the empty text as
  the empty text (as white space at most), and let the note type name a schema of
  the registry that has no field named \<open>__proto__\<close>. For a block or an inline note
  of a schema that declares at least one field, and for a regex note with no more
  capture groups (the whole match, the identifier and the tags apart) than declared
  fields, \<open>getFields\<close> returns an object with exactly one entry for each declared
  field name. Each field holds the text it captured, trimmed and formatted: for a block or
  an inline note the pieces it was given, one after the other, for a regex note the
  group it was given last. A field that captured no text, or white space only, holds
  the empty string. In particular, for a block or inline note whose body has no field
  prefix, the first field holds the entire body, trimmed and formatted, and every
  other field the empty string; for a regex note with distinct field names, field
  \<open>j\<close> holds group \<open>j\<close>, trimmed and formatted, and the empty string when there
  is no such group.
\<close>

theorem getFields_complete:
  assumes known: "fields_dict t = Some names"
      and proto: "''__proto__'' \<notin> set names"
      and blank: "\<forall>cloze hl'. trim (format fc [] cloze hl') = []"
  shows
   "(Note_new note_text fields_dict curly hl = Inr n \<and> note_type n = Some t \<and> names \<noteq> [] \<longrightarrow>
      (\<exists>flds n'. Note_getFields fc n = Inr (flds, n') \<and>
          set (obj_keys flds) = set names \<and> distinct (obj_keys flds) \<and>
          (\<forall>f \<in> set names.
             obj_get flds f =
               Some (format_field fc t curly hl
                       (captured (Note_captures names (Some (hd names))
                                    (drop 1 (split_text n))) f)) \<and>
             (trim (captured (Note_captures names (Some (hd names))
                                (drop 1 (split_text n))) f) = [] \<longrightarrow>
                obj_get flds f = Some [])) \<and>
          ((\<forall>line \<in> set (drop 1 (split_text n)). \<forall>f \<in> set names. \<not> startsWith line (f @ '':'')) \<longrightarrow>
             obj_get flds (hd names) =
               Some (format_field fc t curly hl
                       (concat (map (\<lambda>l. l @ [newline]) (drop 1 (split_text n))))) \<and>
             (\<forall>f \<in> set names. f \<noteq> hd names \<longrightarrow> obj_get flds f = Some [])))) \<and>
    (InlineNote_new note_text fields_dict curly hl = Inr n \<and> note_type n = Some t \<and>
     names \<noteq> [] \<longrightarrow>
      (\<exists>flds n'. InlineNote_getFields fc n = Inr (flds, n') \<and>
          set (obj_keys flds) = set names \<and> distinct (obj_keys flds) \<and>
          (\<forall>f \<in> set names.
             obj_get flds f =
               Some (format_field fc t curly hl
                       (captured (InlineNote_captures names (Some (hd names))
                                    (split_on CHR '' '' (this_text n))) f)) \<and>
             (trim (captured (InlineNote_captures names (Some (hd names))
                                (split_on CHR '' '' (this_text n))) f) = [] \<longrightarrow>
                obj_get flds f = Some [])) \<and>
          ((\<forall>w \<in> set (split_on CHR '' '' (this_text n)). \<forall>f \<in> set names. w \<noteq> f @ '':'') \<longrightarrow>
             obj_get flds (hd names) =
               Some (format_field fc t curly hl
                       (concat (map (\<lambda>w. w @ '' '') (split_on CHR '' '' (this_text n))))) \<and>
             (\<forall>f \<in> set names. f \<noteq> hd names \<longrightarrow> obj_get flds f = Some [])))) \<and>
    (RegexNote_new match t fields_dict tags' id' curly hl = Inr r \<and>
     length (drop 1 (re_match r)) \<le> length names \<longrightarrow>
      (\<exists>flds. RegexNote_getFields fc r = Inr flds \<and>
          set (obj_keys flds) = set names \<and> distinct (obj_keys flds) \<and>
          (\<forall>f \<in> set names.
             obj_get flds f =
               Some (format_field fc t curly hl
                       (assigned (RegexNote_captures names 0 (drop 1 (re_match r))) f [])) \<and>
             (trim (assigned (RegexNote_captures names 0 (drop 1 (re_match r))) f []) = [] \<longrightarrow>
                obj_get flds f = Some [])) \<and>
          (distinct names \<longrightarrow>
             (\<forall>j < length names.
                obj_get flds (names ! j) =
                  Some (format_field fc t curly hl
                          (if j < length (drop 1 (re_match r))
                           then (case drop 1 (re_match r) ! j of None \<Rightarrow> [] | Some s \<Rightarrow> s)
                           else []))))))"
proof (intro conjI impI)
  assume a: "Note_new note_text fields_dict curly hl = Inr n \<and> note_type n = Some t \<and>
    names \<noteq> []"
  then obtain ls ident tgs where
    n: "n = AbstractNote_init fields_dict curly hl (trim note_text) ls ident tgs (Note_getNoteType ls)"
    using Note_new_init by blast
  have nt: "Note_getNoteType ls = Some t" using a n by simp
  have fn: "field_names n = Some names" using known n nt by (simp add: js_string_def)
  have cf: "current_field n = Some (hd names)"
    using a known n nt by (cases names) (simp_all add: AbstractNote_init_def js_string_def)
  have cz: "curly_cloze n = curly" "highlights_to_cloze n = hl"
    using known n nt by (simp_all add: AbstractNote_init_def js_string_def)
  have hd: "hd names \<in> set names" using a by simp
  have nt': "note_type n = Some t" using a by simp
  show "\<exists>flds n'. Note_getFields fc n = Inr (flds, n') \<and>
          set (obj_keys flds) = set names \<and> distinct (obj_keys flds) \<and>
          (\<forall>f \<in> set names.
             obj_get flds f =
               Some (format_field fc t curly hl
                       (captured (Note_captures names (Some (hd names))
                                    (drop 1 (split_text n))) f)) \<and>
             (trim (captured (Note_captures names (Some (hd names))
                                (drop 1 (split_text n))) f) = [] \<longrightarrow>
                obj_get flds f = Some [])) \<and>
          ((\<forall>line \<in> set (drop 1 (split_text n)). \<forall>f \<in> set names. \<not> startsWith line (f @ '':'')) \<longrightarrow>
             obj_get flds (hd names) =
               Some (format_field fc t curly hl
                       (concat (map (\<lambda>l. l @ [newline]) (drop 1 (split_text n))))) \<and>
             (\<forall>f \<in> set names. f \<noteq> hd names \<longrightarrow> obj_get flds f = Some []))"
    using Note_getFields_complete [OF fn cf hd nt' proto blank] unfolding cz .
next
  assume a: "InlineNote_new note_text fields_dict curly hl = Inr n \<and> note_type n = Some t \<and>
    names \<noteq> []"
  then obtain tx ls ident tgs ntype where
    n: "n = AbstractNote_init fields_dict curly hl tx ls ident tgs ntype"
    using InlineNote_new_init by blast
  have nt: "ntype = Some t" using a n by simp
  have fn: "field_names n = Some names" using known n nt by (simp add: js_string_def)
  have cf: "current_field n = Some (hd names)"
    using a known n nt by (cases names) (simp_all add: AbstractNote_init_def js_string_def)
  have cz: "curly_cloze n = curly" "highlights_to_cloze n = hl"
    using known n nt by (simp_all add: AbstractNote_init_def js_string_def)
  have hd: "hd names \<in> set names" using a by simp
  have nt': "note_type n = Some t" using a by simp
  show "\<exists>flds n'. InlineNote_getFields fc n = Inr (flds, n') \<and>
          set (obj_keys flds) = set names \<and> distinct (obj_keys flds) \<and>
          (\<forall>f \<in> set names.
             obj_get flds f =
               Some (format_field fc t curly hl
                       (captured (InlineNote_captures names (Some (hd names))
                                    (split_on CHR '' '' (this_text n))) f)) \<and>
             (trim (captured (InlineNote_captures names (Some (hd names))
                                (split_on CHR '' '' (this_text n))) f) = [] \<longrightarrow>
                obj_get flds f = Some [])) \<and>
          ((\<forall>w \<in> set (split_on CHR '' '' (this_text n)). \<forall>f \<in> set names. w \<noteq> f @ '':'') \<longrightarrow>
             obj_get flds (hd names) =
               Some (format_field fc t curly hl
                       (concat (map (\<lambda>w. w @ '' '') (split_on CHR '' '' (this_text n))))) \<and>
             (\<forall>f \<in> set names. f \<noteq> hd names \<longrightarrow> obj_get flds f = Some []))"
    using InlineNote_getFields_complete [OF fn cf hd nt' proto blank] unfolding cz .
next
  assume a: "RegexNote_new match t fields_dict tags' id' curly hl = Inr r \<and>
    length (drop 1 (re_match r)) \<le> length names"
  then have r: "re_field_names r = Some names" "re_note_type r = t" "re_curly_cloze r = curly"
    "re_highlights_to_cloze r = hl"
    using known
    by (auto simp: RegexNote_new_def split: if_splits prod.splits sum.splits option.splits)
  have len: "length (drop 1 (re_match r)) \<le> length names" using a by simp
  show "\<exists>flds. RegexNote_getFields fc r = Inr flds \<and>
          set (obj_keys flds) = set names \<and> distinct (obj_keys flds) \<and>
          (\<forall>f \<in> set names.
             obj_get flds f =
               Some (format_field fc t curly hl
                       (assigned (RegexNote_captures names 0 (drop 1 (re_match r))) f [])) \<and>
             (trim (assigned (RegexNote_captures names 0 (drop 1 (re_match r))) f []) = [] \<longrightarrow>
                obj_get flds f = Some [])) \<and>
          (distinct names \<longrightarrow>
             (\<forall>j < length names.
                obj_get flds (names ! j) =
                  Some (format_field fc t curly hl
                          (if j < length (drop 1 (re_match r))
                           then (case drop 1 (re_match r) ! j of None \<Rightarrow> [] | Some s \<Rightarrow> s)
                           else []))))"
    using RegexNote_getFields_complete [OF r(1) len proto blank] unfolding r(2,3,4) .
qed

theorem getFields_complete_witness:
  "example_fields_dict ''Basic'' = Some [''Front'', ''Back''] \<and>
   (\<exists>n flds n'.
      Note_new ''Basic\<newline>Back: A'' example_fields_dict False False = Inr n \<and>
      Note_getFields example_formatter n = Inr (flds, n') \<and>
      set (obj_keys flds) = {''Front'', ''Back''} \<and>
      obj_get flds ''Front'' = Some [] \<and> obj_get flds ''Back'' = Some ''A'')"
proof -
  let ?n = "\<lparr>this_text = ''Basic\<newline>Back: A'', split_text = [''Basic'', ''Back: A''],
       current_field_num = 0, delete_flag = False, this_identifier = None, this_tags = [],
       note_type = Some ''Basic'', field_names = Some [''Front'', ''Back''],
       current_field = Some ''Front'', curly_cloze = False, highlights_to_cloze = False,
       no_note_type = False\<rparr>"
  let ?names = "[''Front'', ''Back'']"
  let ?P = "Note_captures ?names (Some (hd ?names)) (drop 1 (split_text ?n))"
  have e: "Note_new ''Basic\<newline>Back: A'' example_fields_dict False False = Inr ?n"
    by code_simp
  have d: "example_fields_dict ''Basic'' = Some ?names" by code_simp
  have p: "''__proto__'' \<notin> set ?names" by simp
  have b: "\<forall>cloze hl'. trim (format example_formatter [] cloze hl') = []"
    by (simp add: example_formatter_def)
  have f1: "format_field example_formatter ''Basic'' False False (captured ?P ''Front'') = []"
    by code_simp
  have f2: "format_field example_formatter ''Basic'' False False (captured ?P ''Back'') = ''A''"
    by code_simp
  have prem: "Note_new ''Basic\<newline>Back: A'' example_fields_dict False False = Inr ?n \<and>
      note_type ?n = Some ''Basic'' \<and> ?names \<noteq> []"
    using e by simp
  note t = getFields_complete [where fields_dict = example_fields_dict and t = "''Basic''"
      and names = ?names and fc = example_formatter and note_text = "''Basic\<newline>Back: A''"
      and curly = False and hl = False and n = ?n, OF d p b, THEN conjunct1, THEN mp, OF prem]
  then obtain flds n' where
    run: "Note_getFields example_formatter ?n = Inr (flds, n')" and
    keys: "set (obj_keys flds) = set ?names" and
    vals: "\<forall>f \<in> set ?names.
         obj_get flds f =
           Some (format_field example_formatter ''Basic'' False False (captured ?P f)) \<and>
         (trim (captured ?P f) = [] \<longrightarrow> obj_get flds f = Some [])"
    by (elim exE conjE) (rule that; assumption)
  have v1: "obj_get flds ''Front'' =
      Some (format_field example_formatter ''Basic'' False False (captured ?P ''Front''))"
    using vals [THEN bspec, of "''Front''"] by simp
  have v2: "obj_get flds ''Back'' =
      Some (format_field example_formatter ''Basic'' False False (captured ?P ''Back''))"
    using vals [THEN bspec, of "''Back''"] by simp
  have "obj_get flds ''Front'' = Some []" using v1 unfolding f1 .
  moreover have "obj_get flds ''Back'' = Some ''A''" using v2 unfolding f2 .
  moreover have "set (obj_keys flds) = {''Front'', ''Back''}" using keys by auto
  ultimately show ?thesis using e d run by blast
qed

text \<open>
  The claim C5 as stated fails in these ways. A regex note with more capture groups
  than declared fields stores the third group of a note of the two-field schema
  \<open>Basic\<close> under the key \<open>undefined\<close>, an entry no declared field name has. So
  does a block note of a schema without fields with the lines of its body. A field
  named \<open>__proto__\<close> gets no entry. With a formatter that wraps every text in a
  paragraph, a field that captured no text holds an empty paragraph, not the empty
  string, and the first field the body in a paragraph. A block note that is a tags
  line and an ID line has no note type; the registry may know \<open>undefined\<close>, and
  then \<open>getFields\<close> throws. And the body is trimmed: of the body \<open>  Q\<close> the first
  field holds \<open>Q\<close>.
\<close>

theorem getFields_not_complete:
  "(\<exists>r. RegexNote_new [Some ''a b c'', Some ''a'', Some ''b'', Some ''c''] ''Basic''
          example_fields_dict False False False False = Inr r \<and>
       example_fields_dict ''Basic'' = Some [''Front'', ''Back''] \<and>
       RegexNote_getFields example_formatter r =
         Inr [(''Front'', ''a''), (''Back'', ''b''), (''undefined'', ''c'')]) \<and>
   example_odd_fields_dict ''Empty'' = Some [] \<and>
   example_block_fields example_formatter example_odd_fields_dict ''Empty\<newline>line''
     = Inr [(''undefined'', ''undefinedline'')] \<and>
   example_odd_fields_dict ''Proto'' = Some [''__proto__'', ''B''] \<and>
   example_block_fields example_formatter example_odd_fields_dict ''Proto\<newline>B: y''
     = Inr [(''B'', ''y'')] \<and>
   example_block_fields example_markup_formatter example_fields_dict
       ''Basic\<newline>line one\<newline>line two''
     = Inr [(''Front'', ''<p>line one\<newline>line two</p>''), (''Back'', ''<p></p>'')] \<and>
   example_odd_fields_dict ''undefined'' = Some [''F''] \<and>
   example_block_fields example_formatter example_odd_fields_dict ''Tags: a\<newline>ID: 5''
     = Inl TypeError \<and>
   example_block_fields example_formatter example_fields_dict ''Basic\<newline>  Q''
     = Inr [(''Front'', ''Q''), (''Back'', [])]"
proof -
  let ?r = "\<lparr>re_match = [Some ''a b c'', Some ''a'', Some ''b'', Some ''c''],
       re_note_type = ''Basic'', re_identifier = None, re_tags = [],
       re_field_names = Some [''Front'', ''Back''], re_curly_cloze = False,
       re_highlights_to_cloze = False\<rparr>"
  have r: "RegexNote_new [Some ''a b c'', Some ''a'', Some ''b'', Some ''c''] ''Basic''
          example_fields_dict False False False False = Inr ?r"
    by code_simp
  have d: "example_fields_dict ''Basic'' = Some [''Front'', ''Back'']" by code_simp
  have g: "RegexNote_getFields example_formatter ?r =
         Inr [(''Front'', ''a''), (''Back'', ''b''), (''undefined'', ''c'')]"
    by code_simp
  have regex: "\<exists>r. RegexNote_new [Some ''a b c'', Some ''a'', Some ''b'', Some ''c''] ''Basic''
          example_fields_dict False False False False = Inr r \<and>
       example_fields_dict ''Basic'' = Some [''Front'', ''Back''] \<and>
       RegexNote_getFields example_formatter r =
         Inr [(''Front'', ''a''), (''Back'', ''b''), (''undefined'', ''c'')]"
    by (intro exI [of _ ?r] conjI r d g)
  have e1: "example_odd_fields_dict ''Empty'' = Some []" by code_simp
  have e2: "example_block_fields example_formatter example_odd_fields_dict ''Empty\<newline>line''
     = Inr [(''undefined'', ''undefinedline'')]"
    by code_simp
  have p1: "example_odd_fields_dict ''Proto'' = Some [''__proto__'', ''B'']" by code_simp
  have p2: "example_block_fields example_formatter example_odd_fields_dict ''Proto\<newline>B: y''
     = Inr [(''B'', ''y'')]"
    by code_simp
  have m: "example_block_fields example_markup_formatter example_fields_dict
       ''Basic\<newline>line one\<newline>line two''
     = Inr [(''Front'', ''<p>line one\<newline>line two</p>''), (''Back'', ''<p></p>'')]"
    by code_simp
  have u1: "example_odd_fields_dict ''undefined'' = Some [''F'']" by code_simp
  have u2: "example_block_fields example_formatter example_odd_fields_dict ''Tags: a\<newline>ID: 5''
     = Inl TypeError"
    by code_simp
  have q: "example_block_fields example_formatter example_fields_dict ''Basic\<newline>  Q''
     = Inr [(''Front'', ''Q''), (''Back'', [])]"
    by code_simp
  show ?thesis by (intro conjI regex e1 e2 p1 p2 m u1 u2 q)
qed

end
